theory Spec2Isabelle
  imports Main "HOL-Library.Tree"
begin

section \<open>Pointers and failures\<close>

text \<open>
  A pointer is \<open>None\<close> (\<open>nullptr\<close>) or \<open>Some a\<close> for the address \<open>a\<close> of a node.
  Memory is a total function from addresses to nodes, so the only failing dereference
  is the one of \<open>nullptr\<close>. A failed \<open>assert\<close> carries the text of the asserted
  expression. A loop that never leaves is the value \<open>None\<close> of the surrounding
  option type.
\<close>

type_synonym ptr = "nat option"

datatype error = Null_deref | Assert_failed string

section \<open>avl.cpp\<close>

text \<open>
  \<open>struct AVLnode\<close>; a field \<open>x_\<close> of the source is \<open>avl_x\<close> here. Heights (and, below,
  balance factors) are \<open>int\<close> in the source; the code only adds 1 or 2 to them and compares
  them, far from the type's bounds, so they are modelled as \<open>int\<close> without wrap-around.
  \<open>KeyType\<close> is \<open>int\<close>; keys are only compared, never computed
  with, so they are modelled as \<open>int\<close>. \<open>avl_height\<close> is the \<open>DEBUG\<close> field
  (\<open>DEBUG\<close> is defined in the file).
\<close>

record AVLnode =
  avl_K :: int
  avl_V :: string
  avl_left :: ptr
  avl_right :: ptr
  avl_parent :: ptr
  avl_heavy :: bool
  avl_height :: int

text \<open>The store of \<open>AVLnode\<close>s, with the address that the next \<open>new\<close> returns.\<close>

record AVLheap =
  cells :: "nat \<Rightarrow> AVLnode"
  next_free :: nat

text \<open>\<open>new AVLnode(K, V)\<close>: the constructor's initialisers, \<open>avl_height = 0\<close>.\<close>

definition new_AVLnode :: "AVLheap \<Rightarrow> int \<Rightarrow> string \<Rightarrow> AVLheap \<times> nat" where
  "new_AVLnode h K V =
     (h\<lparr>cells := (cells h)(next_free h :=
           \<lparr>avl_K = K, avl_V = V, avl_left = None, avl_right = None, avl_parent = None,
            avl_heavy = False, avl_height = 0\<rparr>),
        next_free := Suc (next_free h)\<rparr>,
      next_free h)"

definition upd :: "AVLheap \<Rightarrow> nat \<Rightarrow> (AVLnode \<Rightarrow> AVLnode) \<Rightarrow> AVLheap" where
  "upd h a f = h\<lparr>cells := (cells h)(a := f (cells h a))\<rparr>"

text \<open>\<open>find\<close>: the descent; the loop variable \<open>cur\<close> is the argument.\<close>

partial_function (option) find_avl :: "AVLheap \<Rightarrow> ptr \<Rightarrow> int \<Rightarrow> ptr option" where
  "find_avl h cur K =
     (case cur of
        None \<Rightarrow> Some cur
      | Some a \<Rightarrow>
          if K < avl_K (cells h a) then find_avl h (avl_left (cells h a)) K
          else if avl_K (cells h a) < K then find_avl h (avl_right (cells h a)) K
          else Some cur)"

text \<open>
  \<open>insert_without_rebalancing\<close> (``does not handle root == nullptr''). After
  \<open>cur->left_ = new AVLnode(K, V)\<close> the statement \<open>cur->left_->parent_ = cur->left_\<close>
  stores in the new node's parent link the new node's own address.
\<close>

partial_function (option) insert_without_rebalancing ::
  "AVLheap \<Rightarrow> ptr \<Rightarrow> int \<Rightarrow> string \<Rightarrow> (error + AVLheap \<times> ptr) option" where
  "insert_without_rebalancing h cur K V =
     (case cur of
        None \<Rightarrow> Some (Inl Null_deref)
      | Some a \<Rightarrow>
          if K < avl_K (cells h a) then
            (if avl_left (cells h a) \<noteq> None then insert_without_rebalancing h (avl_left (cells h a)) K V
             else
               (let (h1, p) = new_AVLnode h K V;
                    h2 = upd h1 a (\<lambda>n. n\<lparr>avl_left := Some p\<rparr>)
                in case avl_left (cells h2 a) of
                     None \<Rightarrow> Some (Inl Null_deref)
                   | Some l \<Rightarrow>
                       (let h3 = upd h2 l (\<lambda>n. n\<lparr>avl_parent := avl_left (cells h2 a)\<rparr>)
                        in Some (Inr (h3, avl_left (cells h3 a))))))
          else
            (if avl_right (cells h a) \<noteq> None then insert_without_rebalancing h (avl_right (cells h a)) K V
             else
               (let (h1, p) = new_AVLnode h K V;
                    h2 = upd h1 a (\<lambda>n. n\<lparr>avl_right := Some p\<rparr>)
                in case avl_right (cells h2 a) of
                     None \<Rightarrow> Some (Inl Null_deref)
                   | Some r \<Rightarrow>
                       (let h3 = upd h2 r (\<lambda>n. n\<lparr>avl_parent := avl_right (cells h2 a)\<rparr>)
                        in Some (Inr (h3, avl_right (cells h3 a)))))))"

text \<open>\<open>insert\<close>: the result of \<open>insert_without_rebalancing\<close> is dropped, \<open>root\<close> returned.\<close>

definition insert_avl :: "AVLheap \<Rightarrow> ptr \<Rightarrow> int \<Rightarrow> string \<Rightarrow> (error + AVLheap \<times> ptr) option" where
  "insert_avl h root K V =
     (if root = None then
        (let (h1, p) = new_AVLnode h K V in Some (Inr (h1, Some p)))
      else
        Option.bind (insert_without_rebalancing h root K V)
          (\<lambda>r. case r of
                  Inl e \<Rightarrow> Some (Inl e)
                | Inr (h1, cur) \<Rightarrow> Some (Inr (h1, root))))"

text \<open>\<open>remove\<close> returns its argument and writes nothing.\<close>

definition remove_avl :: "AVLheap \<Rightarrow> ptr \<Rightarrow> AVLheap \<times> ptr" where
  "remove_avl h it = (h, it)"

text \<open>
  \<open>height\<close>: the walk along the longest path as recorded by the \<open>avl_heavy\<close> flags, then
  the \<open>DEBUG\<close> assertion. \<open>is_heavy h p\<close> is \<open>p != nullptr && p->heavy_\<close>.
\<close>

definition is_heavy :: "AVLheap \<Rightarrow> ptr \<Rightarrow> bool" where
  "is_heavy h p = (case p of None \<Rightarrow> False | Some a \<Rightarrow> avl_heavy (cells h a))"

partial_function (option) height_loop :: "AVLheap \<Rightarrow> ptr \<Rightarrow> int \<Rightarrow> (error + int) option" where
  "height_loop h cur H =
     (case cur of
        None \<Rightarrow> Some (Inl Null_deref)
      | Some a \<Rightarrow>
          if avl_left (cells h a) \<noteq> None \<or> avl_right (cells h a) \<noteq> None then
            (if is_heavy h (avl_left (cells h a)) then height_loop h (avl_left (cells h a)) (H + 2)
             else if is_heavy h (avl_right (cells h a)) then height_loop h (avl_right (cells h a)) (H + 2)
             else height_loop h
                    (if avl_left (cells h a) \<noteq> None then avl_left (cells h a) else avl_right (cells h a))
                    (H + 1))
          else Some (Inr H))"

definition height_avl :: "AVLheap \<Rightarrow> ptr \<Rightarrow> (error + int) option" where
  "height_avl h root =
     (case root of
        None \<Rightarrow> Some (Inr (- 1))
      | Some a \<Rightarrow>
          Option.bind (height_loop h root 0)
            (\<lambda>r. case r of
                    Inl e \<Rightarrow> Some (Inl e)
                  | Inr H \<Rightarrow>
                      if avl_height (cells h a) = H then Some (Inr H)
                      else Some (Inl (Assert_failed ''root->height_ == H''))))"

text \<open>
  \<open>verify_inner\<close>. The block of the test \<open>root == nullptr\<close> holds two assertions and no
  \<open>return\<close>: control goes on to \<open>assert(expected_height >= 0)\<close> whatever \<open>root\<close> is.
\<close>

partial_function (option) verify_inner ::
  "AVLheap \<Rightarrow> ptr \<Rightarrow> ptr \<Rightarrow> int \<Rightarrow> (error + unit) option" where
  "verify_inner h root expected_parent expected_height =
     (if root = None \<and> expected_parent \<noteq> None then
        Some (Inl (Assert_failed ''expected_parent == nullptr''))
      else if root = None \<and> expected_height \<noteq> - 1 then
        Some (Inl (Assert_failed ''expected_height == -1''))
      else if \<not> expected_height \<ge> 0 then
        Some (Inl (Assert_failed ''expected_height >= 0''))
      else
        (case root of
           None \<Rightarrow> Some (Inl Null_deref)
         | Some a \<Rightarrow>
             if avl_height (cells h a) \<noteq> expected_height then
               Some (Inl (Assert_failed ''root->height_ == expected_height''))
             else if avl_parent (cells h a) \<noteq> expected_parent then
               Some (Inl (Assert_failed ''root->parent_ == expected_parent''))
             else if avl_left (cells h a) = None \<and> avl_right (cells h a) = None then
               (if expected_height = 0 then Some (Inr ())
                else Some (Inl (Assert_failed ''expected_height == 0'')))
             else if \<not> (avl_left (cells h a) = None \<or> avl_right (cells h a) = None
                        \<or> \<not> is_heavy h (avl_left (cells h a)) \<or> \<not> is_heavy h (avl_right (cells h a))) then
               Some (Inl (Assert_failed
                 ''root->left_ == nullptr || root->right_ == nullptr || !(root->left_->heavy_) || !(root->right_->heavy_)''))
             else
               Option.bind
                 (case avl_left (cells h a) of
                    None \<Rightarrow> Some (Inr ())
                  | Some l \<Rightarrow>
                      if avl_K (cells h a) < avl_K (cells h l) then
                        Some (Inl (Assert_failed ''!(root->K_ < root->left_->K_)''))
                      else verify_inner h (Some l) root
                             (expected_height - (if avl_heavy (cells h l) then 2 else 1)))
                 (\<lambda>r1. case r1 of
                          Inl e \<Rightarrow> Some (Inl e)
                        | Inr u \<Rightarrow>
                            (case avl_right (cells h a) of
                               None \<Rightarrow> Some (Inr ())
                             | Some r \<Rightarrow>
                                 if avl_K (cells h r) < avl_K (cells h a) then
                                   Some (Inl (Assert_failed ''!(root->right_->K_ < root->K_)''))
                                 else verify_inner h (Some r) root
                                        (expected_height - (if avl_heavy (cells h r) then 2 else 1))))))"

text \<open>\<open>verify\<close>: the root must not be heavy, then \<open>verify_inner\<close> at the computed height.\<close>

definition verify :: "AVLheap \<Rightarrow> ptr \<Rightarrow> (error + unit) option" where
  "verify h root =
     (if root \<noteq> None \<and> is_heavy h root then
        Some (Inl (Assert_failed ''root->heavy_ == false''))
      else
        Option.bind (height_avl h root)
          (\<lambda>r. case r of
                  Inl e \<Rightarrow> Some (Inl e)
                | Inr H \<Rightarrow> verify_inner h root None H))"

section \<open>tmi_comparator.h\<close>

subsection \<open>Nodes\<close>

text \<open>
  Modelled from the spec: the node type \<open>Node\<close> (its header, \<open>tmi_node.h\<close>, is not
  among the sources). A node owns one value and, for each index \<open>I\<close>, a link record
  \<open>{left, right, parent, balance factor}\<close>; \<open>node_left I h a\<close> is
  \<open>a->template left<I>()\<close> in the store \<open>h\<close>, \<open>node_set_left I h a p\<close> is
  \<open>a->template set_left<I>(p)\<close>, and likewise for the other links.
\<close>

record links =
  l_left :: ptr
  l_right :: ptr
  l_parent :: ptr
  l_bf :: int

record 'v node =
  stored_value :: 'v
  link_set :: "nat \<Rightarrow> links"

type_synonym 'v heap = "nat \<Rightarrow> 'v node"

definition node_value :: "'v heap \<Rightarrow> nat \<Rightarrow> 'v" where
  "node_value h a = stored_value (h a)"

definition node_left :: "nat \<Rightarrow> 'v heap \<Rightarrow> nat \<Rightarrow> ptr" where
  "node_left I h a = l_left (link_set (h a) I)"

definition node_right :: "nat \<Rightarrow> 'v heap \<Rightarrow> nat \<Rightarrow> ptr" where
  "node_right I h a = l_right (link_set (h a) I)"

definition node_parent :: "nat \<Rightarrow> 'v heap \<Rightarrow> nat \<Rightarrow> ptr" where
  "node_parent I h a = l_parent (link_set (h a) I)"

definition node_bf :: "nat \<Rightarrow> 'v heap \<Rightarrow> nat \<Rightarrow> int" where
  "node_bf I h a = l_bf (link_set (h a) I)"

definition upd_links :: "nat \<Rightarrow> 'v heap \<Rightarrow> nat \<Rightarrow> (links \<Rightarrow> links) \<Rightarrow> 'v heap" where
  "upd_links I h a f = h(a := (h a)\<lparr>link_set := (link_set (h a))(I := f (link_set (h a) I))\<rparr>)"

definition node_set_left :: "nat \<Rightarrow> 'v heap \<Rightarrow> nat \<Rightarrow> ptr \<Rightarrow> 'v heap" where
  "node_set_left I h a p = upd_links I h a (\<lambda>l. l\<lparr>l_left := p\<rparr>)"

definition node_set_right :: "nat \<Rightarrow> 'v heap \<Rightarrow> nat \<Rightarrow> ptr \<Rightarrow> 'v heap" where
  "node_set_right I h a p = upd_links I h a (\<lambda>l. l\<lparr>l_right := p\<rparr>)"

definition node_set_parent :: "nat \<Rightarrow> 'v heap \<Rightarrow> nat \<Rightarrow> ptr \<Rightarrow> 'v heap" where
  "node_set_parent I h a p = upd_links I h a (\<lambda>l. l\<lparr>l_parent := p\<rparr>)"

definition node_set_bf :: "nat \<Rightarrow> 'v heap \<Rightarrow> nat \<Rightarrow> int \<Rightarrow> 'v heap" where
  "node_set_bf I h a b = upd_links I h a (\<lambda>l. l\<lparr>l_bf := b\<rparr>)"

subsection \<open>The static helpers of \<open>tmi_comparator\<close>\<close>

text \<open>Each takes a \<open>node_type*\<close> and dereferences it without a test.\<close>

definition get_parent :: "nat \<Rightarrow> 'v heap \<Rightarrow> ptr \<Rightarrow> error + ptr" where
  "get_parent I h node = (case node of None \<Rightarrow> Inl Null_deref | Some a \<Rightarrow> Inr (node_parent I h a))"

definition get_bf :: "nat \<Rightarrow> 'v heap \<Rightarrow> ptr \<Rightarrow> error + int" where
  "get_bf I h node = (case node of None \<Rightarrow> Inl Null_deref | Some a \<Rightarrow> Inr (node_bf I h a))"

definition get_left :: "nat \<Rightarrow> 'v heap \<Rightarrow> ptr \<Rightarrow> error + ptr" where
  "get_left I h node = (case node of None \<Rightarrow> Inl Null_deref | Some a \<Rightarrow> Inr (node_left I h a))"

definition get_right :: "nat \<Rightarrow> 'v heap \<Rightarrow> ptr \<Rightarrow> error + ptr" where
  "get_right I h node = (case node of None \<Rightarrow> Inl Null_deref | Some a \<Rightarrow> Inr (node_right I h a))"

text \<open>\<open>tree_is_left_child\<close>: \<open>node == get_left(get_parent(node))\<close>.\<close>

definition tree_is_left_child :: "nat \<Rightarrow> 'v heap \<Rightarrow> ptr \<Rightarrow> error + bool" where
  "tree_is_left_child I h node =
     (case get_parent I h node of
        Inl e \<Rightarrow> Inl e
      | Inr p \<Rightarrow> (case get_left I h p of Inl e \<Rightarrow> Inl e | Inr l \<Rightarrow> Inr (node = l)))"

text \<open>
  \<open>tree_min\<close>: \<open>assert(node); do { node = get_left(node); } while (node); return node;\<close>.
  The loop is left when \<open>node\<close> is null, and that \<open>node\<close> is returned.
\<close>

partial_function (option) tree_min_loop :: "nat \<Rightarrow> 'v heap \<Rightarrow> ptr \<Rightarrow> (error + ptr) option" where
  "tree_min_loop I h node =
     (case get_left I h node of
        Inl e \<Rightarrow> Some (Inl e)
      | Inr node1 \<Rightarrow> if node1 \<noteq> None then tree_min_loop I h node1 else Some (Inr node1))"

definition tree_min :: "nat \<Rightarrow> 'v heap \<Rightarrow> ptr \<Rightarrow> (error + ptr) option" where
  "tree_min I h node =
     (if node = None then Some (Inl (Assert_failed ''node'')) else tree_min_loop I h node)"

partial_function (option) tree_max_loop :: "nat \<Rightarrow> 'v heap \<Rightarrow> ptr \<Rightarrow> (error + ptr) option" where
  "tree_max_loop I h node =
     (case get_right I h node of
        Inl e \<Rightarrow> Some (Inl e)
      | Inr node1 \<Rightarrow> if node1 \<noteq> None then tree_max_loop I h node1 else Some (Inr node1))"

definition tree_max :: "nat \<Rightarrow> 'v heap \<Rightarrow> ptr \<Rightarrow> (error + ptr) option" where
  "tree_max I h node =
     (if node = None then Some (Inl (Assert_failed ''node'')) else tree_max_loop I h node)"

text \<open>
  \<open>tree_next\<close>: the loop \<open>while (node && !tree_is_left_child(node)) node = get_parent(node);\<close>
  gives the node it stops at; then \<open>return node ? get_parent(node) : nullptr;\<close>.
\<close>

partial_function (option) tree_next_loop :: "nat \<Rightarrow> 'v heap \<Rightarrow> ptr \<Rightarrow> (error + ptr) option" where
  "tree_next_loop I h node =
     (if node = None then Some (Inr node)
      else
        (case tree_is_left_child I h node of
           Inl e \<Rightarrow> Some (Inl e)
         | Inr b \<Rightarrow>
             if \<not> b then
               (case get_parent I h node of
                  Inl e \<Rightarrow> Some (Inl e)
                | Inr p \<Rightarrow> tree_next_loop I h p)
             else Some (Inr node)))"

definition tree_next :: "nat \<Rightarrow> 'v heap \<Rightarrow> ptr \<Rightarrow> (error + ptr) option" where
  "tree_next I h node =
     (if node = None then Some (Inl (Assert_failed ''node''))
      else
        (case get_right I h node of
           Inl e \<Rightarrow> Some (Inl e)
         | Inr r \<Rightarrow>
             if r \<noteq> None then tree_min I h r
             else
               Option.bind (tree_next_loop I h node)
                 (\<lambda>res. case res of
                           Inl e \<Rightarrow> Some (Inl e)
                         | Inr node1 \<Rightarrow>
                             if node1 \<noteq> None then Some (get_parent I h node1)
                             else Some (Inr None))))"

partial_function (option) tree_prev_loop :: "nat \<Rightarrow> 'v heap \<Rightarrow> ptr \<Rightarrow> (error + ptr) option" where
  "tree_prev_loop I h node =
     (if node = None then Some (Inr node)
      else
        (case tree_is_left_child I h node of
           Inl e \<Rightarrow> Some (Inl e)
         | Inr b \<Rightarrow>
             if b then
               (case get_parent I h node of
                  Inl e \<Rightarrow> Some (Inl e)
                | Inr p \<Rightarrow> tree_prev_loop I h p)
             else Some (Inr node)))"

definition tree_prev :: "nat \<Rightarrow> 'v heap \<Rightarrow> ptr \<Rightarrow> (error + ptr) option" where
  "tree_prev I h node =
     (if node = None then Some (Inl (Assert_failed ''node''))
      else
        (case get_left I h node of
           Inl e \<Rightarrow> Some (Inl e)
         | Inr l \<Rightarrow>
             if l \<noteq> None then tree_max I h l
             else
               Option.bind (tree_prev_loop I h node)
                 (\<lambda>res. case res of
                           Inl e \<Rightarrow> Some (Inl e)
                         | Inr node1 \<Rightarrow>
                             if node1 \<noteq> None then Some (get_parent I h node1)
                             else Some (Inr None))))"

text \<open>\<open>tree_remove\<close>: the body is \<open>node_type* new_root = nullptr; return new_root;\<close>.\<close>

definition tree_remove :: "nat \<Rightarrow> 'v heap \<Rightarrow> ptr \<Rightarrow> ptr" where
  "tree_remove I h node = None"

text \<open>
  \<open>tree_balance_after_insert\<close>. \<open>parent_bf\<close> is a local copy; neither branch writes a
  balance factor, rotates, or moves \<open>node\<close>; only the branch \<open>parent_bf == 0\<close> clears
  \<open>height_increased\<close>. The function returns \<open>node\<close>.
\<close>

partial_function (option) tree_balance_after_insert_loop ::
  "nat \<Rightarrow> 'v heap \<Rightarrow> ptr \<Rightarrow> ptr \<Rightarrow> bool \<Rightarrow> (error + ptr) option" where
  "tree_balance_after_insert_loop I h root node height_increased =
     (if node \<noteq> root \<and> height_increased then
        (case get_parent I h node of
           Inl e \<Rightarrow> Some (Inl e)
         | Inr parent \<Rightarrow>
             (case get_bf I h parent of
                Inl e \<Rightarrow> Some (Inl e)
              | Inr parent_bf \<Rightarrow>
                  (case get_left I h parent of
                     Inl e \<Rightarrow> Some (Inl e)
                   | Inr l \<Rightarrow>
                       if node = l then
                         (if parent_bf + 1 = 0 then
                            tree_balance_after_insert_loop I h root node False
                          else if parent_bf + 1 = 1 then
                            tree_balance_after_insert_loop I h root node height_increased
                          else
                            tree_balance_after_insert_loop I h root node height_increased)
                       else tree_balance_after_insert_loop I h root node height_increased)))
      else Some (Inr node))"

definition tree_balance_after_insert :: "nat \<Rightarrow> 'v heap \<Rightarrow> ptr \<Rightarrow> ptr \<Rightarrow> (error + ptr) option" where
  "tree_balance_after_insert I h root node = tree_balance_after_insert_loop I h root node True"

subsection \<open>One index\<close>

text \<open>
  The members of a \<open>tmi_comparator\<close>, with its template arguments \<open>I\<close> and
  \<open>Comparator::is_ordered_unique()\<close>.
\<close>

record ('v, 'k) tmi_comparator =
  index_I :: nat
  sorted_unique :: bool
  m_root :: ptr
  m_key_from_value :: "'v \<Rightarrow> 'k"
  m_comparator :: "'k \<Rightarrow> 'k \<Rightarrow> bool"

record insert_hints =
  m_parent :: ptr
  m_inserted_left :: bool

definition remove_node :: "('v, 'k) tmi_comparator \<Rightarrow> 'v heap \<Rightarrow> ptr \<Rightarrow> ('v, 'k) tmi_comparator" where
  "remove_node c h node = c\<lparr>m_root := tree_remove (index_I c) h node\<rparr>"

text \<open>
  \<open>preinsert_node\<close>: the descent for the candidate's key. The loop is left either by
  \<open>return curr\<close> (first component \<open>Some cur\<close>; the source's \<open>curr\<close> is \<open>cur\<close> here)
  or by \<open>curr == nullptr\<close> (first component \<open>None\<close>, with the last \<open>parent\<close> and
  \<open>inserted_left\<close>).
\<close>

partial_function (option) preinsert_loop ::
  "('v, 'k) tmi_comparator \<Rightarrow> 'v heap \<Rightarrow> 'k \<Rightarrow> ptr \<Rightarrow> ptr \<Rightarrow> bool \<Rightarrow> (ptr option \<times> ptr \<times> bool) option" where
  "preinsert_loop c h key parent cur inserted_left =
     (case cur of
        None \<Rightarrow> Some (None, parent, inserted_left)
      | Some a \<Rightarrow>
          if sorted_unique c then
            (if m_comparator c key (m_key_from_value c (node_value h a)) then
               preinsert_loop c h key cur (node_left (index_I c) h a) True
             else if m_comparator c (m_key_from_value c (node_value h a)) key then
               preinsert_loop c h key cur (node_right (index_I c) h a) False
             else Some (Some cur, cur, inserted_left))
          else
            (if m_comparator c key (m_key_from_value c (node_value h a)) then
               preinsert_loop c h key cur (node_left (index_I c) h a) True
             else
               preinsert_loop c h key cur (node_right (index_I c) h a) False))"

definition preinsert_node ::
  "('v, 'k) tmi_comparator \<Rightarrow> 'v heap \<Rightarrow> ptr \<Rightarrow> insert_hints \<Rightarrow> (error + ptr \<times> insert_hints) option" where
  "preinsert_node c h node hints =
     (case node of
        None \<Rightarrow> Some (Inl Null_deref)
      | Some n \<Rightarrow>
          Option.bind (preinsert_loop c h (m_key_from_value c (node_value h n)) None (m_root c) False)
            (\<lambda>(ret, parent, inserted_left).
               case ret of
                 Some cur \<Rightarrow> Some (Inr (cur, hints))
               | None \<Rightarrow>
                   Some (Inr (None, hints\<lparr>m_inserted_left := inserted_left, m_parent := parent\<rparr>))))"

text \<open>\<open>insert_node\<close>: link the node below \<open>hints.m_parent\<close>, then
  \<open>m_root = tree_balance_after_insert(m_root, node)\<close>.\<close>

definition insert_node ::
  "('v, 'k) tmi_comparator \<Rightarrow> 'v heap \<Rightarrow> ptr \<Rightarrow> insert_hints
     \<Rightarrow> (error + ('v, 'k) tmi_comparator \<times> 'v heap) option" where
  "insert_node c h node hints =
     (case node of
        None \<Rightarrow> Some (Inl Null_deref)
      | Some n \<Rightarrow>
          (let I = index_I c;
               h1 = node_set_left I h n None;
               h2 = node_set_right I h1 n None;
               h3 = node_set_bf I h2 n 0;
               h4 = node_set_parent I h3 n (m_parent hints)
           in case m_parent hints of
                None \<Rightarrow> Some (Inr (c\<lparr>m_root := node\<rparr>, h4))
              | Some p \<Rightarrow>
                  (let h5 = (if m_inserted_left hints then node_set_left I h4 p node
                             else node_set_right I h4 p node)
                   in Option.bind (tree_balance_after_insert I h5 (m_root c) node)
                        (\<lambda>res. case res of
                                  Inl e \<Rightarrow> Some (Inl e)
                                | Inr r \<Rightarrow> Some (Inr (c\<lparr>m_root := r\<rparr>, h5))))))"

text \<open>
  \<open>erase_if_modified\<close>, called after the value of \<open>node\<close> was edited in place:
  \<open>h\<close> already holds the new value.
\<close>

definition erase_if_modified ::
  "('v, 'k) tmi_comparator \<Rightarrow> 'v heap \<Rightarrow> ptr
     \<Rightarrow> (error + bool \<times> ('v, 'k) tmi_comparator \<times> 'v heap) option" where
  "erase_if_modified c h node =
     (let I = index_I c in
      Option.bind (tree_min I h (m_root c)) (\<lambda>mn. case mn of Inl e \<Rightarrow> Some (Inl e) | Inr mn \<Rightarrow>
      Option.bind (if node \<noteq> mn then tree_prev I h node else Some (Inr None))
        (\<lambda>pv. case pv of Inl e \<Rightarrow> Some (Inl e) | Inr prev_ptr \<Rightarrow>
      Option.bind (tree_max I h (m_root c)) (\<lambda>mx. case mx of Inl e \<Rightarrow> Some (Inl e) | Inr mx \<Rightarrow>
      Option.bind (if node \<noteq> mx then tree_next I h node else Some (Inr None))
        (\<lambda>nx. case nx of Inl e \<Rightarrow> Some (Inl e) | Inr next_ptr \<Rightarrow>
      (case node of
         None \<Rightarrow> Some (Inl Null_deref)
       | Some n \<Rightarrow>
           (let key = m_key_from_value c (node_value h n);
                needs_resort =
                  ((case next_ptr of None \<Rightarrow> False
                    | Some x \<Rightarrow> m_comparator c (m_key_from_value c (node_value h x)) key)
                   \<or> (case prev_ptr of None \<Rightarrow> False
                       | Some x \<Rightarrow> m_comparator c key (m_key_from_value c (node_value h x))))
            in if needs_resort then
                 (let c1 = c\<lparr>m_root := tree_remove I h node\<rparr>;
                      h1 = node_set_parent I h n None;
                      h2 = node_set_left I h1 n None;
                      h3 = node_set_right I h2 n None;
                      h4 = node_set_bf I h3 n 0
                  in Some (Inr (True, c1, h4)))
               else Some (Inr (False, c, h)))))))))"

subsection \<open>Cursors\<close>

text \<open>An \<open>iterator\<close> holds \<open>m_node\<close> (and a pointer to the index's \<open>m_root\<close>, which only
  \<open>operator--\<close> reads); \<open>end()\<close> is the iterator at \<open>nullptr\<close>.\<close>

datatype iterator = Iterator (m_node: ptr)

definition make_iterator :: "ptr \<Rightarrow> iterator" where
  "make_iterator node = Iterator node"

definition end_tmi :: iterator where
  "end_tmi = make_iterator None"

definition begin_tmi :: "('v, 'k) tmi_comparator \<Rightarrow> 'v heap \<Rightarrow> (error + iterator) option" where
  "begin_tmi c h =
     (if m_root c = None then Some (Inr end_tmi)
      else map_option (map_sum id make_iterator) (tree_min (index_I c) h (m_root c)))"

text \<open>\<open>iterator::operator++\<close>.\<close>

definition iterator_incr :: "nat \<Rightarrow> 'v heap \<Rightarrow> iterator \<Rightarrow> (error + iterator) option" where
  "iterator_incr I h it = map_option (map_sum id Iterator) (tree_next I h (m_node it))"

text \<open>\<open>find\<close>: the descent; \<open>parent\<close> is written and never read.\<close>

partial_function (option) find_loop ::
  "('v, 'k) tmi_comparator \<Rightarrow> 'v heap \<Rightarrow> 'k \<Rightarrow> ptr \<Rightarrow> iterator option" where
  "find_loop c h key cur =
     (case cur of
        None \<Rightarrow> Some end_tmi
      | Some a \<Rightarrow>
          if m_comparator c key (m_key_from_value c (node_value h a)) then
            find_loop c h key (node_left (index_I c) h a)
          else if m_comparator c (m_key_from_value c (node_value h a)) key then
            find_loop c h key (node_right (index_I c) h a)
          else Some (make_iterator cur))"

definition find_tmi :: "('v, 'k) tmi_comparator \<Rightarrow> 'v heap \<Rightarrow> 'k \<Rightarrow> iterator option" where
  "find_tmi c h key = find_loop c h key (m_root c)"

subsection \<open>The coordinator\<close>

text \<open>
  Modelled from the spec: the multi-index coordinator (the class \<open>Parent\<close>, of which
  \<open>tmi_comparator.h\<close> holds only the calls \<open>m_parent.do_insert\<close>, \<open>m_parent.do_erase\<close>,
  \<open>m_parent.get_size\<close>, ...). It owns the node pool and the indices. Insert: for each index
  in a fixed order, pre-validate the candidate key without yet mutating any tree; if a
  sorted-unique index reports a conflict, abort: no index is mutated, and the conflicting
  existing element is returned with failure; if all validations pass, the node is linked
  into every index's tree at the insertion points computed before, each tree being
  rebalanced, and the size grows by one. The candidate value is held in the pool's next
  unused cell while it is validated, as \<open>preinsert_node\<close> reads the key from a node; on
  failure that cell is given back, so that the container returned is the one received.
\<close>

record ('v, 'k) coordinator =
  indices :: "('v, 'k) tmi_comparator list"
  nodes :: "'v heap"
  m_size :: nat
  next_node :: nat

text \<open>Modelled from the spec: the pre-validation of the candidate in each index, in the
  order of the indices, stopping at the first conflict; it collects the insertion points.\<close>

fun prevalidate ::
  "('v, 'k) tmi_comparator list \<Rightarrow> 'v heap \<Rightarrow> ptr \<Rightarrow> (error + ptr \<times> insert_hints list) option" where
  "prevalidate [] h node = Some (Inr (None, []))"
| "prevalidate (c # cs) h node =
     Option.bind (preinsert_node c h node \<lparr>m_parent = None, m_inserted_left = False\<rparr>)
       (\<lambda>r. case r of
               Inl e \<Rightarrow> Some (Inl e)
             | Inr (conflict, hints) \<Rightarrow>
                 if conflict \<noteq> None then Some (Inr (conflict, []))
                 else
                   Option.bind (prevalidate cs h node)
                     (\<lambda>r2. case r2 of
                              Inl e \<Rightarrow> Some (Inl e)
                            | Inr (conflict2, hs) \<Rightarrow> Some (Inr (conflict2, hints # hs))))"

text \<open>Modelled from the spec: the physical insertion into every index's tree at the
  insertion points computed before, each tree rebalanced by its own \<open>insert_node\<close>.\<close>

fun insert_into_all ::
  "(('v, 'k) tmi_comparator \<times> insert_hints) list \<Rightarrow> 'v heap \<Rightarrow> ptr
     \<Rightarrow> (error + ('v, 'k) tmi_comparator list \<times> 'v heap) option" where
  "insert_into_all [] h node = Some (Inr ([], h))"
| "insert_into_all ((c, hints) # rest) h node =
     Option.bind (insert_node c h node hints)
       (\<lambda>r. case r of
               Inl e \<Rightarrow> Some (Inl e)
             | Inr (c1, h1) \<Rightarrow>
                 Option.bind (insert_into_all rest h1 node)
                   (\<lambda>r2. case r2 of
                            Inl e \<Rightarrow> Some (Inl e)
                          | Inr (cs1, h2) \<Rightarrow> Some (Inr (c1 # cs1, h2))))"

text \<open>Modelled from the spec: the candidate value held in the cell \<open>n\<close> of the pool; the
  cell's links are not touched.\<close>

definition stage :: "'v heap \<Rightarrow> nat \<Rightarrow> 'v \<Rightarrow> 'v heap" where
  "stage h n v = h(n := (h n)\<lparr>stored_value := v\<rparr>)"

text \<open>Modelled from the spec: the coordinator's \<open>insert(value) -> (cursor, bool success)\<close>,
  all or nothing across the indices.\<close>

definition do_insert ::
  "('v, 'k) coordinator \<Rightarrow> 'v \<Rightarrow> (error + ('v, 'k) coordinator \<times> ptr \<times> bool) option" where
  "do_insert C v =
     (let n = next_node C; h = stage (nodes C) n v
      in Option.bind (prevalidate (indices C) h (Some n))
           (\<lambda>r. case r of
                   Inl e \<Rightarrow> Some (Inl e)
                 | Inr (conflict, hs) \<Rightarrow>
                     if conflict \<noteq> None then Some (Inr (C, conflict, False))
                     else
                       Option.bind (insert_into_all (zip (indices C) hs) h (Some n))
                         (\<lambda>r2. case r2 of
                                  Inl e \<Rightarrow> Some (Inl e)
                                | Inr (cs1, h1) \<Rightarrow>
                                    Some (Inr (C\<lparr>indices := cs1, nodes := h1,
                                                  m_size := Suc (m_size C),
                                                  next_node := Suc n\<rparr>,
                                               Some n, True)))))"

text \<open>Modelled from the spec: \<open>size()\<close>, which forwards to the coordinator.\<close>

definition size_tmi :: "('v, 'k) coordinator \<Rightarrow> nat" where
  "size_tmi C = m_size C"

declare find_avl.simps [code] insert_without_rebalancing.simps [code] height_loop.simps [code]
  verify_inner.simps [code] tree_min_loop.simps [code] tree_max_loop.simps [code]
  tree_next_loop.simps [code] tree_prev_loop.simps [code]
  tree_balance_after_insert_loop.simps [code] preinsert_loop.simps [code] find_loop.simps [code]

section \<open>Invariants\<close>

text \<open>
  \<open>avl_tree h p t\<close>: in the store \<open>h\<close>, the pointer \<open>p\<close> is the root of a finite binary
  tree whose shape, with the nodes' addresses, is \<open>t\<close>. For given \<open>h\<close> and \<open>p\<close> there is at
  most one such \<open>t\<close>; a cyclic structure has none.
\<close>

fun avl_tree :: "AVLheap \<Rightarrow> ptr \<Rightarrow> nat tree \<Rightarrow> bool" where
  "avl_tree h p Leaf = (p = None)"
| "avl_tree h p (Node l a r) =
     (p = Some a \<and> avl_tree h (avl_left (cells h a)) l \<and> avl_tree h (avl_right (cells h a)) r)"

text \<open>The ordering invariant as \<open>verify\<close> states it: left \<open>\<le>\<close> root \<open>\<le>\<close> right, in terms of \<open><\<close>.\<close>

fun avl_ordered :: "AVLheap \<Rightarrow> nat tree \<Rightarrow> bool" where
  "avl_ordered h Leaf = True"
| "avl_ordered h (Node l a r) =
     ((\<forall>b\<in>set_tree l. \<not> avl_K (cells h a) < avl_K (cells h b)) \<and>
      (\<forall>b\<in>set_tree r. \<not> avl_K (cells h b) < avl_K (cells h a)) \<and>
      avl_ordered h l \<and> avl_ordered h r)"

text \<open>The balance invariant, by heights computed from the shape alone: at every node the
  heights of the two children differ by at most one.\<close>

fun height_balanced :: "'a tree \<Rightarrow> bool" where
  "height_balanced Leaf = True"
| "height_balanced (Node l a r) =
     (height l \<le> height r + 1 \<and> height r \<le> height l + 1 \<and>
      height_balanced l \<and> height_balanced r)"

text \<open>The same for one index \<open>I\<close> of the multi-index nodes.\<close>

fun tmi_tree :: "nat \<Rightarrow> 'v heap \<Rightarrow> ptr \<Rightarrow> nat tree \<Rightarrow> bool" where
  "tmi_tree I h p Leaf = (p = None)"
| "tmi_tree I h p (Node l a r) =
     (p = Some a \<and> tmi_tree I h (node_left I h a) l \<and> tmi_tree I h (node_right I h a) r)"

definition strict_weak_order :: "('k \<Rightarrow> 'k \<Rightarrow> bool) \<Rightarrow> bool" where
  "strict_weak_order lt =
     ((\<forall>x. \<not> lt x x) \<and> (\<forall>x y z. lt x y \<and> lt y z \<longrightarrow> lt x z) \<and>
      (\<forall>x y z. lt x y \<longrightarrow> lt x z \<or> lt z y))"

definition key_of :: "('v, 'k) tmi_comparator \<Rightarrow> 'v heap \<Rightarrow> nat \<Rightarrow> 'k" where
  "key_of c h a = m_key_from_value c (node_value h a)"

text \<open>Two keys are equivalent when neither compares less than the other.\<close>

definition equivalent :: "('v, 'k) tmi_comparator \<Rightarrow> 'k \<Rightarrow> 'k \<Rightarrow> bool" where
  "equivalent c x y = (\<not> m_comparator c x y \<and> \<not> m_comparator c y x)"

text \<open>The ordering invariant in its weaker form, the one of a sorted-non-unique index: no key
  of the left subtree is greater than the node's, no key of the right subtree is less.\<close>

fun ordered :: "('v, 'k) tmi_comparator \<Rightarrow> 'v heap \<Rightarrow> nat tree \<Rightarrow> bool" where
  "ordered c h Leaf = True"
| "ordered c h (Node l a r) =
     ((\<forall>b\<in>set_tree l. \<not> m_comparator c (key_of c h a) (key_of c h b)) \<and>
      (\<forall>b\<in>set_tree r. \<not> m_comparator c (key_of c h b) (key_of c h a)) \<and>
      ordered c h l \<and> ordered c h r)"

text \<open>
  \<open>stuck I h root node\<close>: \<open>node\<close> is not \<open>root\<close>, has a parent, and is not the left child of
  a parent with balance factor \<open>-1\<close>. In such a state an iteration of the loop of
  \<open>tree_balance_after_insert\<close> changes no variable.
\<close>

definition stuck :: "nat \<Rightarrow> 'v heap \<Rightarrow> ptr \<Rightarrow> ptr \<Rightarrow> bool" where
  "stuck I h root node =
     (node \<noteq> root \<and>
      (case node of None \<Rightarrow> False
       | Some n \<Rightarrow>
           (case node_parent I h n of None \<Rightarrow> False
            | Some p \<Rightarrow> node_left I h p \<noteq> node \<or> node_bf I h p \<noteq> - 1)))"

section \<open>Example states\<close>

text \<open>The loop of \<open>main\<close>: \<open>root = insert(root, i, "abc")\<close> for each key in turn.\<close>

fun insert_all_avl :: "AVLheap \<Rightarrow> ptr \<Rightarrow> int list \<Rightarrow> (error + AVLheap \<times> ptr) option" where
  "insert_all_avl h root [] = Some (Inr (h, root))"
| "insert_all_avl h root (K # Ks) =
     (case insert_avl h root K ''abc'' of
        Some (Inr (h1, root1)) \<Rightarrow> insert_all_avl h1 root1 Ks
      | r \<Rightarrow> r)"

definition empty_AVLheap :: AVLheap where
  "empty_AVLheap =
     \<lparr>cells = (\<lambda>a. \<lparr>avl_K = 0, avl_V = [], avl_left = None, avl_right = None,
                      avl_parent = None, avl_heavy = False, avl_height = 0\<rparr>),
      next_free = 0\<rparr>"

text \<open>The shape with addresses \<open>0, \<dots>, n - 1\<close> where each node is the right child of the one
  before.\<close>

definition right_chain :: "nat \<Rightarrow> nat tree" where
  "right_chain n = fold (\<lambda>a t. Node Leaf a t) (rev [0..<n]) Leaf"

definition AVLnode_of :: "int \<Rightarrow> ptr \<Rightarrow> ptr \<Rightarrow> ptr \<Rightarrow> int \<Rightarrow> AVLnode" where
  "AVLnode_of K l r p H =
     \<lparr>avl_K = K, avl_V = ''abc'', avl_left = l, avl_right = r, avl_parent = p,
      avl_heavy = False, avl_height = H\<rparr>"

text \<open>Keys 1, 2, 3 with 2 at the root (address 0).\<close>

definition avl_three :: AVLheap where
  "avl_three =
     \<lparr>cells = (\<lambda>a. AVLnode_of 0 None None None 0)
        (0 := AVLnode_of 2 (Some 1) (Some 2) None 1,
         1 := AVLnode_of 1 None None (Some 0) 0,
         2 := AVLnode_of 3 None None (Some 0) 0),
      next_free = 3\<rparr>"

text \<open>Keys 3, 2, 1, each the left child of the one before; 3 at the root (address 0).\<close>

definition avl_left_heavy :: AVLheap where
  "avl_left_heavy =
     \<lparr>cells = (\<lambda>a. AVLnode_of 0 None None None 0)
        (0 := AVLnode_of 3 (Some 1) None None 2,
         1 := AVLnode_of 2 (Some 2) None (Some 0) 1,
         2 := AVLnode_of 1 None None (Some 1) 0),
      next_free = 3\<rparr>"

text \<open>Nodes of \<open>int\<close> values with the same link record in every index; an index over them
  keyed by the value itself and compared by \<open><\<close>.\<close>

definition int_node :: "int \<Rightarrow> ptr \<Rightarrow> ptr \<Rightarrow> ptr \<Rightarrow> int \<Rightarrow> int node" where
  "int_node v l r p b =
     \<lparr>stored_value = v, link_set = (\<lambda>I. \<lparr>l_left = l, l_right = r, l_parent = p, l_bf = b\<rparr>)\<rparr>"

definition int_index :: "bool \<Rightarrow> ptr \<Rightarrow> (int, int) tmi_comparator" where
  "int_index uniq root =
     \<lparr>index_I = 0, sorted_unique = uniq, m_root = root,
      m_key_from_value = (\<lambda>v. v), m_comparator = (<)\<rparr>"

definition tmi_three :: "int heap" where
  "tmi_three =
     (\<lambda>a. int_node 0 None None None 0)
       (0 := int_node 2 (Some 1) (Some 2) None 0,
        1 := int_node 1 None None (Some 0) 0,
        2 := int_node 3 None None (Some 0) 0)"

text \<open>The balance factors follow the convention of the comments of
  \<open>tree_balance_after_insert\<close>: positive when the left subtree is the higher one.\<close>

definition tmi_left_heavy :: "int heap" where
  "tmi_left_heavy =
     (\<lambda>a. int_node 0 None None None 0)
       (0 := int_node 3 (Some 1) None None 2,
        1 := int_node 2 (Some 2) None (Some 0) 1,
        2 := int_node 1 None None (Some 1) 0)"

text \<open>Two unlinked nodes holding 1 and 2, as handed to an empty index.\<close>

definition tmi_fresh :: "int heap" where
  "tmi_fresh =
     (\<lambda>a. int_node 0 None None None 0)
       (0 := int_node 1 None None None 0,
        1 := int_node 2 None None None 0)"

text \<open>A root 5 with balance factor \<open>-1\<close> and a right child 8; node 2 holds the candidate 1.\<close>

definition tmi_right_child :: "int heap" where
  "tmi_right_child =
     (\<lambda>a. int_node 0 None None None 0)
       (0 := int_node 5 None (Some 1) None (- 1),
        1 := int_node 8 None None (Some 0) 0,
        2 := int_node 1 None None None 0)"

text \<open>\<open>tmi_three\<close> after the value of its root was edited from 2 to 100.\<close>

definition tmi_three_modified :: "int heap" where
  "tmi_three_modified = tmi_three(0 := int_node 100 (Some 1) (Some 2) None 0)"

text \<open>A root 5, its left child 2, and that child's right child, whose value was edited
  from 3 to 9.\<close>

definition tmi_zigzag_modified :: "int heap" where
  "tmi_zigzag_modified =
     (\<lambda>a. int_node 0 None None None 0)
       (0 := int_node 5 (Some 1) None None 2,
        1 := int_node 2 None (Some 2) (Some 0) (- 1),
        2 := int_node 9 None None (Some 1) 0)"

text \<open>A container over \<open>tmi_three\<close> with two indices by value: index 1 sorted-non-unique,
  index 0 sorted-unique.\<close>

definition tmi_two_indices :: "(int, int) coordinator" where
  "tmi_two_indices =
     \<lparr>indices = [(int_index False (Some 0))\<lparr>index_I := 1\<rparr>, int_index True (Some 0)],
      nodes = tmi_three, m_size = 3, next_node = 3\<rparr>"

definition no_hints :: insert_hints where
  "no_hints = \<lparr>m_parent = None, m_inserted_left = False\<rparr>"

section \<open>Theorems\<close>

text \<open>
  C9. The invariant checker \<open>verify\<close>, called on the empty tree (\<open>root == nullptr\<close>),
  fails an assertion for every store: \<open>height\<close> gives \<open>-1\<close>, the two assertions of the
  null-root branch of \<open>verify_inner\<close> pass, the branch does not return, and
  \<open>assert(expected_height >= 0)\<close> fails. The call does return (it is not a diverging
  loop), and it returns that failure. The empty tree is a well-formed tree that satisfies
  the ordering and the balance invariant.
\<close>

theorem verify_empty_tree_fails:
  "verify h None = Some (Inl (Assert_failed ''expected_height >= 0''))
   \<and> height_avl h None = Some (Inr (- 1))
   \<and> avl_tree h None Leaf \<and> avl_ordered h Leaf \<and> height_balanced (Leaf :: nat tree)"
  by (simp add: verify_def height_avl_def verify_inner.simps)

subsection \<open>Descent in a well-formed tree\<close>

lemma insert_without_rebalancing_returns:
  "avl_tree h (Some a) t \<Longrightarrow>
   \<exists>h1 c. insert_without_rebalancing h (Some a) K V = Some (Inr (h1, Some c))"
proof (induction t arbitrary: a)
  case Leaf
  then show ?case by simp
next
  case (Node l b r)
  then have L: "avl_tree h (avl_left (cells h a)) l"
    and R: "avl_tree h (avl_right (cells h a)) r" by auto
  show ?case
  proof (cases "K < avl_K (cells h a)")
    case True
    show ?thesis
    proof (cases "avl_left (cells h a)")
      case None
      with True show ?thesis
        by (subst insert_without_rebalancing.simps) (simp add: new_AVLnode_def upd_def Let_def)
    next
      case (Some c)
      with L Node.IH(1)[of c] True show ?thesis
        by (subst insert_without_rebalancing.simps) simp
    qed
  next
    case False
    show ?thesis
    proof (cases "avl_right (cells h a)")
      case None
      with False show ?thesis
        by (subst insert_without_rebalancing.simps) (simp add: new_AVLnode_def upd_def Let_def)
    next
      case (Some c)
      with R Node.IH(2)[of c] False show ?thesis
        by (subst insert_without_rebalancing.simps) simp
    qed
  qed
qed

lemma insert_without_rebalancing_no_failure:
  assumes "insert_without_rebalancing h cur K V = Some y"
  shows "cur \<noteq> None \<longrightarrow> (\<exists>h1 c. y = Inr (h1, Some c))"
proof (rule insert_without_rebalancing.raw_induct[
         where P = "\<lambda>h cur K V y. cur \<noteq> None \<longrightarrow> (\<exists>h1 c. y = Inr (h1, Some c))", OF _ assms],
       goal_cases)
  case (1 f h cur K V y)
  show ?case
  proof
    assume "cur \<noteq> None"
    then obtain a where a: "cur = Some a" by auto
    show "\<exists>h1 c. y = Inr (h1, Some c)"
    proof (cases "K < avl_K (cells h a)")
      case True
      show ?thesis
      proof (cases "avl_left (cells h a)")
        case None
        with 1(2) a True show ?thesis
          by (auto simp: new_AVLnode_def upd_def Let_def)
      next
        case (Some l)
        with 1(2) a True have "f h (Some l) K V = Some y" by simp
        from 1(1)[OF this] show ?thesis by simp
      qed
    next
      case False
      show ?thesis
      proof (cases "avl_right (cells h a)")
        case None
        with 1(2) a False show ?thesis
          by (auto simp: new_AVLnode_def upd_def Let_def)
      next
        case (Some r)
        with 1(2) a False have "f h (Some r) K V = Some y" by simp
        from 1(1)[OF this] show ?thesis by simp
      qed
    qed
  qed
qed

lemma insert_avl_result_root:
  assumes "insert_avl h (Some a) K V = Some y"
  shows "\<exists>h1. y = Inr (h1, Some a)"
proof (cases "insert_without_rebalancing h (Some a) K V")
  case None
  with assms show ?thesis by (simp add: insert_avl_def)
next
  case (Some z)
  from insert_without_rebalancing_no_failure[OF this] obtain h1 c where "z = Inr (h1, Some c)"
    by auto
  with Some assms show ?thesis by (auto simp: insert_avl_def)
qed

lemma find_avl_found:
  "avl_tree h root t \<Longrightarrow> avl_ordered h t \<Longrightarrow>
   \<exists>a\<in>set_tree t. \<not> K < avl_K (cells h a) \<and> \<not> avl_K (cells h a) < K \<Longrightarrow>
   \<exists>a\<in>set_tree t. find_avl h root K = Some (Some a)
      \<and> \<not> K < avl_K (cells h a) \<and> \<not> avl_K (cells h a) < K"
proof (induction t arbitrary: root)
  case Leaf
  then show ?case by simp
next
  case (Node l a r)
  from Node.prems(1) have root: "root = Some a"
    and L: "avl_tree h (avl_left (cells h a)) l" and R: "avl_tree h (avl_right (cells h a)) r"
    by auto
  from Node.prems(2) have ol: "avl_ordered h l" and or: "avl_ordered h r"
    and bl: "\<forall>b\<in>set_tree l. \<not> avl_K (cells h a) < avl_K (cells h b)"
    and br: "\<forall>b\<in>set_tree r. \<not> avl_K (cells h b) < avl_K (cells h a)" by auto
  consider (lt) "K < avl_K (cells h a)"
    | (gt) "\<not> K < avl_K (cells h a)" "avl_K (cells h a) < K"
    | (eq) "\<not> K < avl_K (cells h a)" "\<not> avl_K (cells h a) < K" by blast
  then show ?case
  proof cases
    case lt
    with Node.prems(3) br
    have "\<exists>b\<in>set_tree l. \<not> K < avl_K (cells h b) \<and> \<not> avl_K (cells h b) < K"
      by fastforce
    from Node.IH(1)[OF L ol this] lt root show ?thesis
      by (subst find_avl.simps) auto
  next
    case gt
    with Node.prems(3) bl
    have "\<exists>b\<in>set_tree r. \<not> K < avl_K (cells h b) \<and> \<not> avl_K (cells h b) < K"
      by fastforce
    from Node.IH(2)[OF R or this] gt root show ?thesis
      by (subst find_avl.simps) auto
  next
    case eq
    with root show ?thesis by (subst find_avl.simps) auto
  qed
qed

lemma find_avl_absent:
  "avl_tree h root t \<Longrightarrow>
   \<forall>a\<in>set_tree t. K < avl_K (cells h a) \<or> avl_K (cells h a) < K \<Longrightarrow>
   find_avl h root K = Some None"
proof (induction t arbitrary: root)
  case Leaf
  then show ?case by (subst find_avl.simps) simp
next
  case (Node l a r)
  from Node.prems(1) have root: "root = Some a"
    and L: "avl_tree h (avl_left (cells h a)) l" and R: "avl_tree h (avl_right (cells h a)) r"
    by auto
  from Node.prems(2) have a: "K < avl_K (cells h a) \<or> avl_K (cells h a) < K"
    and l: "\<forall>b\<in>set_tree l. K < avl_K (cells h b) \<or> avl_K (cells h b) < K"
    and r: "\<forall>b\<in>set_tree r. K < avl_K (cells h b) \<or> avl_K (cells h b) < K" by auto
  from Node.IH(1)[OF L l] Node.IH(2)[OF R r] a root show ?case
    by (subst find_avl.simps) auto
qed

lemma find_loop_found:
  assumes swo: "strict_weak_order (m_comparator c)"
  shows "tmi_tree (index_I c) h root t \<Longrightarrow> ordered c h t \<Longrightarrow>
   \<exists>a\<in>set_tree t. equivalent c key (key_of c h a) \<Longrightarrow>
   \<exists>a\<in>set_tree t. find_loop c h key root = Some (Iterator (Some a))
      \<and> equivalent c key (key_of c h a)"
proof (induction t arbitrary: root)
  case Leaf
  then show ?case by simp
next
  case (Node l a r)
  let ?k = "key_of c h a"
  from swo have nt: "\<And>x y z. m_comparator c x y \<Longrightarrow> m_comparator c x z \<or> m_comparator c z y"
    unfolding strict_weak_order_def by blast
  from Node.prems(1) have root: "root = Some a"
    and L: "tmi_tree (index_I c) h (node_left (index_I c) h a) l"
    and R: "tmi_tree (index_I c) h (node_right (index_I c) h a) r"
    by auto
  from Node.prems(2) have ol: "ordered c h l" and or: "ordered c h r"
    and bl: "\<forall>b\<in>set_tree l. \<not> m_comparator c ?k (key_of c h b)"
    and br: "\<forall>b\<in>set_tree r. \<not> m_comparator c (key_of c h b) ?k" by auto
  consider (lt) "m_comparator c key ?k"
    | (gt) "\<not> m_comparator c key ?k" "m_comparator c ?k key"
    | (eq) "\<not> m_comparator c key ?k" "\<not> m_comparator c ?k key" by blast
  then show ?case
  proof cases
    case lt
    have "\<forall>b\<in>set_tree r. \<not> equivalent c key (key_of c h b)"
      using nt[OF lt] br by (auto simp: equivalent_def)
    with Node.prems(3) lt have "\<exists>b\<in>set_tree l. equivalent c key (key_of c h b)"
      by (auto simp: equivalent_def)
    from Node.IH(1)[OF L ol this] lt root show ?thesis
      by (subst find_loop.simps) (auto simp: key_of_def)
  next
    case gt
    have "\<forall>b\<in>set_tree l. \<not> equivalent c key (key_of c h b)"
      using nt[OF gt(2)] bl by (auto simp: equivalent_def)
    with Node.prems(3) gt have "\<exists>b\<in>set_tree r. equivalent c key (key_of c h b)"
      by (auto simp: equivalent_def)
    from Node.IH(2)[OF R or this] gt root show ?thesis
      by (subst find_loop.simps) (auto simp: key_of_def)
  next
    case eq
    with root show ?thesis
      by (subst find_loop.simps) (auto simp: key_of_def equivalent_def make_iterator_def)
  qed
qed

lemma find_loop_absent:
  "tmi_tree (index_I c) h root t \<Longrightarrow>
   \<forall>a\<in>set_tree t. \<not> equivalent c key (key_of c h a) \<Longrightarrow>
   find_loop c h key root = Some end_tmi"
proof (induction t arbitrary: root)
  case Leaf
  then show ?case by (subst find_loop.simps) simp
next
  case (Node l a r)
  from Node.prems(1) have root: "root = Some a"
    and L: "tmi_tree (index_I c) h (node_left (index_I c) h a) l"
    and R: "tmi_tree (index_I c) h (node_right (index_I c) h a) r"
    by auto
  from Node.prems(2) have a: "\<not> equivalent c key (key_of c h a)"
    and l: "\<forall>b\<in>set_tree l. \<not> equivalent c key (key_of c h b)"
    and r: "\<forall>b\<in>set_tree r. \<not> equivalent c key (key_of c h b)" by auto
  from Node.IH(1)[OF L l] Node.IH(2)[OF R r] a root show ?case
    by (subst find_loop.simps) (auto simp: key_of_def equivalent_def)
qed

lemma strict_weak_order_int: "strict_weak_order ((<) :: int \<Rightarrow> int \<Rightarrow> bool)"
  by (auto simp: strict_weak_order_def)

lemmas example_defs =
  avl_three_def avl_left_heavy_def AVLnode_of_def empty_AVLheap_def
  tmi_three_def tmi_left_heavy_def tmi_fresh_def int_node_def int_index_def no_hints_def
  tmi_right_child_def tmi_three_modified_def tmi_zigzag_modified_def

lemmas node_defs =
  node_value_def node_left_def node_right_def node_parent_def node_bf_def
  node_set_left_def node_set_right_def node_set_parent_def node_set_bf_def upd_links_def
  get_left_def get_right_def get_parent_def get_bf_def

text \<open>
  C7. In a tree that satisfies the ordering invariant, \<open>find\<close> returns a node whose key is
  equivalent to the key sought (neither compares less than the other) whenever the tree
  holds such a node, and the not-found result otherwise: \<open>nullptr\<close> for \<open>find\<close> of
  avl.cpp, the \<open>end()\<close> cursor for \<open>find\<close> of an index, whose comparator is a strict
  weak order. The cursor returned by \<open>find\<close> of an index is the one whose \<open>m_node\<close> is
  that node, and \<open>end()\<close> is the cursor whose \<open>m_node\<close> is \<open>nullptr\<close>, so the two
  results differ. In both cases the call returns.
\<close>

theorem find_returns_equivalent_node_or_not_found:
  "(avl_tree h root t \<and> avl_ordered h t \<longrightarrow>
      (if \<exists>a\<in>set_tree t. \<not> K < avl_K (cells h a) \<and> \<not> avl_K (cells h a) < K
       then \<exists>a\<in>set_tree t. find_avl h root K = Some (Some a)
              \<and> \<not> K < avl_K (cells h a) \<and> \<not> avl_K (cells h a) < K
       else find_avl h root K = Some None))
   \<and> (strict_weak_order (m_comparator c) \<and> tmi_tree (index_I c) g (m_root c) u \<and> ordered c g u \<longrightarrow>
      (if \<exists>a\<in>set_tree u. equivalent c key (key_of c g a)
       then \<exists>a\<in>set_tree u. find_tmi c g key = Some (Iterator (Some a))
              \<and> equivalent c key (key_of c g a)
       else find_tmi c g key = Some end_tmi \<and> end_tmi = Iterator None))"
proof (intro conjI impI)
  assume A: "avl_tree h root t \<and> avl_ordered h t"
  show "if \<exists>a\<in>set_tree t. \<not> K < avl_K (cells h a) \<and> \<not> avl_K (cells h a) < K
       then \<exists>a\<in>set_tree t. find_avl h root K = Some (Some a)
              \<and> \<not> K < avl_K (cells h a) \<and> \<not> avl_K (cells h a) < K
       else find_avl h root K = Some None"
  proof (cases "\<exists>a\<in>set_tree t. \<not> K < avl_K (cells h a) \<and> \<not> avl_K (cells h a) < K")
    case True
    with find_avl_found[of h root t K] A show ?thesis by simp
  next
    case False
    then have "\<forall>a\<in>set_tree t. K < avl_K (cells h a) \<or> avl_K (cells h a) < K" by blast
    with find_avl_absent[of h root t K] A False show ?thesis by simp
  qed
next
  assume B: "strict_weak_order (m_comparator c) \<and> tmi_tree (index_I c) g (m_root c) u \<and> ordered c g u"
  show "if \<exists>a\<in>set_tree u. equivalent c key (key_of c g a)
       then \<exists>a\<in>set_tree u. find_tmi c g key = Some (Iterator (Some a))
              \<and> equivalent c key (key_of c g a)
       else find_tmi c g key = Some end_tmi \<and> end_tmi = Iterator None"
  proof (cases "\<exists>a\<in>set_tree u. equivalent c key (key_of c g a)")
    case True
    with find_loop_found[of c g "m_root c" u key] B show ?thesis
      by (simp add: find_tmi_def)
  next
    case False
    with find_loop_absent[of c g "m_root c" u key] B show ?thesis
      by (simp add: find_tmi_def end_tmi_def make_iterator_def)
  qed
qed

theorem find_returns_equivalent_node_or_not_found_witness:
  "avl_tree avl_three (Some 0) \<langle>\<langle>\<langle>\<rangle>, 1, \<langle>\<rangle>\<rangle>, 0, \<langle>\<langle>\<rangle>, 2, \<langle>\<rangle>\<rangle>\<rangle>
   \<and> avl_ordered avl_three \<langle>\<langle>\<langle>\<rangle>, 1, \<langle>\<rangle>\<rangle>, 0, \<langle>\<langle>\<rangle>, 2, \<langle>\<rangle>\<rangle>\<rangle>
   \<and> find_avl avl_three (Some 0) 3 = Some (Some 2)
   \<and> find_avl avl_three (Some 0) 4 = Some None
   \<and> strict_weak_order (m_comparator (int_index True (Some 0)))
   \<and> tmi_tree (index_I (int_index True (Some 0))) tmi_three (m_root (int_index True (Some 0)))
        \<langle>\<langle>\<langle>\<rangle>, 1, \<langle>\<rangle>\<rangle>, 0, \<langle>\<langle>\<rangle>, 2, \<langle>\<rangle>\<rangle>\<rangle>
   \<and> ordered (int_index True (Some 0)) tmi_three \<langle>\<langle>\<langle>\<rangle>, 1, \<langle>\<rangle>\<rangle>, 0, \<langle>\<langle>\<rangle>, 2, \<langle>\<rangle>\<rangle>\<rangle>
   \<and> find_tmi (int_index True (Some 0)) tmi_three 1 = Some (Iterator (Some 1))
   \<and> m_node (Iterator (Some 1)) = Some 1
   \<and> find_tmi (int_index True (Some 0)) tmi_three 0 = Some (Iterator None)
   \<and> end_tmi = Iterator None"
  using
    find_returns_equivalent_node_or_not_found
      [of avl_three "Some 0" "\<langle>\<langle>\<langle>\<rangle>, 1, \<langle>\<rangle>\<rangle>, 0, \<langle>\<langle>\<rangle>, 2, \<langle>\<rangle>\<rangle>\<rangle>" 3
          "int_index True (Some 0)" tmi_three "\<langle>\<langle>\<langle>\<rangle>, 1, \<langle>\<rangle>\<rangle>, 0, \<langle>\<langle>\<rangle>, 2, \<langle>\<rangle>\<rangle>\<rangle>" 1]
    find_returns_equivalent_node_or_not_found
      [of avl_three "Some 0" "\<langle>\<langle>\<langle>\<rangle>, 1, \<langle>\<rangle>\<rangle>, 0, \<langle>\<langle>\<rangle>, 2, \<langle>\<rangle>\<rangle>\<rangle>" 4
          "int_index True (Some 0)" tmi_three "\<langle>\<langle>\<langle>\<rangle>, 1, \<langle>\<rangle>\<rangle>, 0, \<langle>\<langle>\<rangle>, 2, \<langle>\<rangle>\<rangle>\<rangle>" 0]
  by (simp add: example_defs node_defs key_of_def equivalent_def strict_weak_order_int
        make_iterator_def end_tmi_def)

text \<open>
  C10. \<open>insert(root, K, V)\<close> of avl.cpp with a non-null \<open>root\<close> returns \<open>root\<close>: when
  \<open>root\<close> is the root of a well-formed tree the call returns, without failure, and the
  pointer returned is \<open>root\<close>; and in any store, a call that returns at all returns
  without failure, and returns \<open>root\<close>.
\<close>

theorem insert_avl_returns_root:
  "(avl_tree h (Some a) t \<longrightarrow> (\<exists>h1. insert_avl h (Some a) K V = Some (Inr (h1, Some a))))
   \<and> (\<forall>y. insert_avl h (Some a) K V = Some y \<longrightarrow> (\<exists>h1. y = Inr (h1, Some a)))"
proof (intro conjI impI allI)
  assume "avl_tree h (Some a) t"
  from insert_without_rebalancing_returns[OF this, of K V]
  show "\<exists>h1. insert_avl h (Some a) K V = Some (Inr (h1, Some a))"
    by (auto simp: insert_avl_def)
next
  fix y
  assume "insert_avl h (Some a) K V = Some y"
  then show "\<exists>h1. y = Inr (h1, Some a)" by (rule insert_avl_result_root)
qed

theorem insert_avl_returns_root_witness:
  "avl_tree avl_three (Some 0) \<langle>\<langle>\<langle>\<rangle>, 1, \<langle>\<rangle>\<rangle>, 0, \<langle>\<langle>\<rangle>, 2, \<langle>\<rangle>\<rangle>\<rangle>
   \<and> (\<exists>h1. insert_avl avl_three (Some 0) 5 ''abc'' = Some (Inr (h1, Some 0)))"
  using insert_avl_returns_root
      [of avl_three 0 "\<langle>\<langle>\<langle>\<rangle>, 1, \<langle>\<rangle>\<rangle>, 0, \<langle>\<langle>\<rangle>, 2, \<langle>\<rangle>\<rangle>\<rangle>" 5 "''abc''"]
  by (simp add: example_defs)

subsection \<open>Insertion, erasure, traversal and modification as the code has them\<close>

text \<open>
  In every store, whatever \<open>tree_min\<close> and \<open>tree_max\<close> return is \<open>nullptr\<close>: the
  \<open>do \<dots> while (node)\<close> loop ends only there. So \<open>tree_next\<close> of a node with a right
  child never returns a node.
\<close>

lemma tree_min_loop_null:
  assumes "tree_min_loop I h node = Some (Inr p)"
  shows "p = None"
proof (rule tree_min_loop.raw_induct[
         where P = "\<lambda>I h node y. \<forall>p. y = Inr p \<longrightarrow> p = None", OF _ assms, rule_format],
       goal_cases)
  case (1 f I h node y p)
  then show ?case by (auto split: sum.splits if_splits)
qed simp

lemma tree_max_loop_null:
  assumes "tree_max_loop I h node = Some (Inr p)"
  shows "p = None"
proof (rule tree_max_loop.raw_induct[
         where P = "\<lambda>I h node y. \<forall>p. y = Inr p \<longrightarrow> p = None", OF _ assms, rule_format],
       goal_cases)
  case (1 f I h node y p)
  then show ?case by (auto split: sum.splits if_splits)
qed simp

lemma tree_min_null: "tree_min I h node = Some (Inr p) \<Longrightarrow> p = None"
  by (auto simp: tree_min_def dest: tree_min_loop_null split: if_splits)

lemma tree_max_null: "tree_max I h node = Some (Inr p) \<Longrightarrow> p = None"
  by (auto simp: tree_max_def dest: tree_max_loop_null split: if_splits)

lemma tree_next_right_child_null:
  "node_right I h a = Some r \<Longrightarrow> tree_next I h (Some a) = Some (Inr p) \<Longrightarrow> p = None"
  by (auto simp: tree_next_def get_right_def dest: tree_min_null)

text \<open>
  The loop of \<open>tree_balance_after_insert\<close> does not end from a state that is \<open>stuck\<close>,
  and what it returns, when it ends, is \<open>node\<close>. So \<open>insert_node\<close> below a parent does
  not return unless the node is the left child of a parent with balance factor \<open>-1\<close>, and
  then it makes the inserted node the root.
\<close>

lemma balance_loop_stuck:
  assumes "tree_balance_after_insert_loop I h root node hi = Some y"
  shows "\<not> (hi \<and> stuck I h root node)"
proof (rule tree_balance_after_insert_loop.raw_induct[
         where P = "\<lambda>I h root node hi y. \<not> (hi \<and> stuck I h root node)", OF _ assms],
       goal_cases)
  case (1 f I h root node hi y)
  show ?case
  proof
    assume A: "hi \<and> stuck I h root node"
    then have hi: hi and st: "stuck I h root node" by auto
    from 1(2) hi st have "f I h root node True = Some y"
      by (auto simp: stuck_def get_parent_def get_bf_def get_left_def
               split: if_splits option.splits)
    from 1(1)[OF this] st show False by blast
  qed
qed

lemma tree_balance_after_insert_stuck:
  "stuck I h root node \<Longrightarrow> tree_balance_after_insert I h root node = None"
  using balance_loop_stuck[of I h root node True] unfolding tree_balance_after_insert_def
  by (cases "tree_balance_after_insert_loop I h root node True") auto

lemma insert_node_never_returns:
  assumes "m_parent hints = Some p" "n \<noteq> p" "m_root c \<noteq> Some n"
    and "node_bf (index_I c) h p \<noteq> - 1
         \<or> (\<not> m_inserted_left hints \<and> node_left (index_I c) h p \<noteq> Some n)"
  shows "insert_node c h (Some n) hints = None"
proof -
  let ?I = "index_I c"
  let ?h4 = "node_set_parent ?I (node_set_bf ?I (node_set_right ?I (node_set_left ?I h n None) n None) n 0) n (Some p)"
  let ?h5 = "if m_inserted_left hints then node_set_left ?I ?h4 p (Some n) else node_set_right ?I ?h4 p (Some n)"
  have "stuck ?I ?h5 (m_root c) (Some n)"
    using assms by (auto simp: stuck_def node_defs)
  then have "tree_balance_after_insert ?I ?h5 (m_root c) (Some n) = None"
    by (rule tree_balance_after_insert_stuck)
  then show ?thesis
    using assms(1) by (simp add: insert_node_def Let_def)
qed

lemma balance_loop_returns_node:
  assumes "tree_balance_after_insert_loop I h root node hi = Some (Inr r)"
  shows "r = node"
proof (rule tree_balance_after_insert_loop.raw_induct[
         where P = "\<lambda>I h root node hi y. \<forall>r. y = Inr r \<longrightarrow> r = node", OF _ assms, rule_format],
       goal_cases)
  case (1 f I h root node hi y r)
  then show ?case by (auto split: sum.splits if_splits)
qed simp

lemma insert_node_returns_inserted_node:
  assumes "m_parent hints = Some p" "insert_node c h (Some n) hints = Some (Inr (c1, h1))"
  shows "m_root c1 = Some n"
proof -
  let ?I = "index_I c"
  let ?h4 = "node_set_parent ?I (node_set_bf ?I (node_set_right ?I (node_set_left ?I h n None) n None) n 0) n (Some p)"
  let ?h5 = "if m_inserted_left hints then node_set_left ?I ?h4 p (Some n) else node_set_right ?I ?h4 p (Some n)"
  show ?thesis
  proof (cases "tree_balance_after_insert ?I ?h5 (m_root c) (Some n)")
    case None
    with assms show ?thesis by (simp add: insert_node_def Let_def)
  next
    case (Some y)
    show ?thesis
    proof (cases y)
      case (Inl e)
      with Some assms show ?thesis by (simp add: insert_node_def Let_def)
    next
      case (Inr r)
      with Some have "r = Some n"
        unfolding tree_balance_after_insert_def by (auto dest: balance_loop_returns_node)
      with Some Inr assms show ?thesis by (auto simp: insert_node_def Let_def)
    qed
  qed
qed

text \<open>
  C1 (the code does not keep the balance invariant). Inserting 1, 2, 3 with \<open>insert\<close> of
  avl.cpp, from the empty tree, gives the chain in which each node is the right child of
  the one before: it satisfies the ordering invariant, the heights of the root's children
  differ by two, and the file's own checker \<open>verify\<close> fails on it. In an index of
  tmi_comparator.h the first \<open>insert_node\<close> makes the node the root; for the second
  value \<open>preinsert_node\<close> gives the root as parent, and \<open>insert_node\<close> does not return:
  the loop of \<open>tree_balance_after_insert\<close> changes no variable, and no balance factor
  or link is written by it in any case.
\<close>

theorem insert_leaves_tree_unbalanced:
  "(\<exists>h. insert_all_avl empty_AVLheap None [1, 2, 3] = Some (Inr (h, Some 0))
        \<and> avl_tree h (Some 0) (right_chain 3) \<and> avl_ordered h (right_chain 3)
        \<and> verify h (Some 0) = Some (Inl (Assert_failed ''root->height_ == H'')))
   \<and> \<not> height_balanced (right_chain 3)
   \<and> (\<exists>c1 h1. insert_node (int_index True None) tmi_fresh (Some 0) no_hints = Some (Inr (c1, h1))
        \<and> m_root c1 = Some 0
        \<and> preinsert_node c1 h1 (Some 1) no_hints
            = Some (Inr (None, \<lparr>m_parent = Some 0, m_inserted_left = False\<rparr>))
        \<and> insert_node c1 h1 (Some 1) \<lparr>m_parent = Some 0, m_inserted_left = False\<rparr> = None)"
proof (intro conjI)
  show "\<exists>h. insert_all_avl empty_AVLheap None [1, 2, 3] = Some (Inr (h, Some 0))
        \<and> avl_tree h (Some 0) (right_chain 3) \<and> avl_ordered h (right_chain 3)
        \<and> verify h (Some 0) = Some (Inl (Assert_failed ''root->height_ == H''))"
    by (simp add: example_defs insert_avl_def new_AVLnode_def upd_def
        insert_without_rebalancing.simps right_chain_def upt_rec verify_def height_avl_def
        height_loop.simps is_heavy_def)
  show "\<not> height_balanced (right_chain 3)"
    by (simp add: right_chain_def upt_rec)
  let ?c1 = "int_index True (Some 0)"
  let ?h1 = "node_set_parent 0 (node_set_bf 0 (node_set_right 0 (node_set_left 0 tmi_fresh 0 None) 0 None) 0 0) 0 None"
  have a: "insert_node (int_index True None) tmi_fresh (Some 0) no_hints = Some (Inr (?c1, ?h1))"
    by (simp add: insert_node_def int_index_def no_hints_def)
  have b: "m_root ?c1 = Some 0" by (simp add: int_index_def)
  have c: "preinsert_node ?c1 ?h1 (Some 1) no_hints
            = Some (Inr (None, \<lparr>m_parent = Some 0, m_inserted_left = False\<rparr>))"
    by (simp add: example_defs node_defs preinsert_node_def preinsert_loop.simps)
  have d: "insert_node ?c1 ?h1 (Some 1) \<lparr>m_parent = Some 0, m_inserted_left = False\<rparr> = None"
    by (rule insert_node_never_returns[where p = 0]) (simp_all add: example_defs node_defs)
  from a b c d
  show "\<exists>c1 h1. insert_node (int_index True None) tmi_fresh (Some 0) no_hints = Some (Inr (c1, h1))
        \<and> m_root c1 = Some 0
        \<and> preinsert_node c1 h1 (Some 1) no_hints
            = Some (Inr (None, \<lparr>m_parent = Some 0, m_inserted_left = False\<rparr>))
        \<and> insert_node c1 h1 (Some 1) \<lparr>m_parent = Some 0, m_inserted_left = False\<rparr> = None"
    by blast
qed

text \<open>
  C6 (the code builds a chain). Inserting 1, \<dots>, 7 in this order with \<open>insert\<close> of
  avl.cpp, from the empty tree, gives the chain of seven nodes, each the right child of
  the one before. Its height is 6 where a single node has height 0, by the shape and by
  the walk of the file's own \<open>height\<close>, whose \<open>DEBUG\<close> assertion then fails, as no
  \<open>height_\<close> field is ever written. (In an index of tmi_comparator.h the second
  insertion does not return: \<open>insert_node_never_returns\<close>.)
\<close>

theorem sorted_inserts_build_chain_of_height_six:
  "(\<exists>h. insert_all_avl empty_AVLheap None [1, 2, 3, 4, 5, 6, 7] = Some (Inr (h, Some 0))
        \<and> avl_tree h (Some 0) (right_chain 7)
        \<and> height_loop h (Some 0) 0 = Some (Inr 6)
        \<and> height_avl h (Some 0) = Some (Inl (Assert_failed ''root->height_ == H'')))
   \<and> int (height (right_chain 7)) - 1 = 6"
  by (simp add: example_defs insert_avl_def new_AVLnode_def upd_def
        insert_without_rebalancing.simps right_chain_def upt_rec height_loop.simps is_heavy_def
        height_avl_def)

text \<open>
  C4 (the code breaks the parent links). Inserting 2, then 1, with \<open>insert\<close> of avl.cpp:
  the node of 1 is the left child of the root, and its parent link holds its own address,
  of which it is neither the left nor the right child; with the root's \<open>DEBUG\<close> height set
  right, \<open>verify\<close> fails at its assertion on the parent link. In an index of
  tmi_comparator.h, when \<open>insert_node\<close> below a parent returns (here 1 is inserted left
  of the root 5, whose balance factor is \<open>-1\<close>), \<open>m_root\<close> is the inserted node, whose
  parent link is not empty.
\<close>

theorem insert_breaks_parent_links:
  "(\<exists>h. insert_all_avl empty_AVLheap None [2, 1] = Some (Inr (h, Some 0))
        \<and> avl_tree h (Some 0) \<langle>\<langle>\<langle>\<rangle>, 1, \<langle>\<rangle>\<rangle>, 0, \<langle>\<rangle>\<rangle>
        \<and> avl_parent (cells h 1) = Some 1
        \<and> avl_left (cells h 1) \<noteq> Some 1 \<and> avl_right (cells h 1) \<noteq> Some 1
        \<and> verify (upd h 0 (\<lambda>n. n\<lparr>avl_height := 1\<rparr>)) (Some 0)
            = Some (Inl (Assert_failed ''root->parent_ == expected_parent'')))
   \<and> preinsert_node (int_index True (Some 0)) tmi_right_child (Some 2) no_hints
        = Some (Inr (None, \<lparr>m_parent = Some 0, m_inserted_left = True\<rparr>))
   \<and> (\<exists>c1 h1. insert_node (int_index True (Some 0)) tmi_right_child (Some 2)
                  \<lparr>m_parent = Some 0, m_inserted_left = True\<rparr> = Some (Inr (c1, h1))
        \<and> m_root c1 = Some 2 \<and> node_parent 0 h1 2 = Some 0)"
  by (simp add: example_defs insert_avl_def new_AVLnode_def upd_def
        insert_without_rebalancing.simps verify_def height_avl_def height_loop.simps
        is_heavy_def verify_inner.simps insert_node_def node_defs tree_balance_after_insert_def
        tree_balance_after_insert_loop.simps preinsert_node_def preinsert_loop.simps)

text \<open>
  C2 (erase is a stub). On the tree of 3, 2, 1 where each node is the left child of the one
  before, erasing the root through \<open>remove_node\<close> sets \<open>m_root\<close> to \<open>nullptr\<close>: the two
  remaining keys, found before, are not found any more. \<open>remove\<close> of avl.cpp gives back
  the pointer it received and writes nothing: the key of the erased root is still found.
\<close>

theorem erase_does_not_remove_node:
  "tmi_tree 0 tmi_left_heavy (Some 0) \<langle>\<langle>\<langle>\<langle>\<rangle>, 2, \<langle>\<rangle>\<rangle>, 1, \<langle>\<rangle>\<rangle>, 0, \<langle>\<rangle>\<rangle>
   \<and> find_tmi (int_index True (Some 0)) tmi_left_heavy 2 = Some (Iterator (Some 1))
   \<and> find_tmi (int_index True (Some 0)) tmi_left_heavy 1 = Some (Iterator (Some 2))
   \<and> end_tmi = Iterator None
   \<and> m_root (remove_node (int_index True (Some 0)) tmi_left_heavy (Some 0)) = None
   \<and> find_tmi (remove_node (int_index True (Some 0)) tmi_left_heavy (Some 0)) tmi_left_heavy 2
       = Some end_tmi
   \<and> find_tmi (remove_node (int_index True (Some 0)) tmi_left_heavy (Some 0)) tmi_left_heavy 1
       = Some end_tmi
   \<and> remove_avl avl_left_heavy (Some 0) = (avl_left_heavy, Some 0)
   \<and> find_avl avl_left_heavy (snd (remove_avl avl_left_heavy (Some 0))) 3 = Some (Some 0)"
  by (simp add: example_defs node_defs find_tmi_def find_loop.simps remove_node_def
        tree_remove_def remove_avl_def find_avl.simps make_iterator_def end_tmi_def)

text \<open>
  C3 (the successor of a node with a right subtree is lost). In the tree with 2 at the
  root (address 0), 1 on its left (address 1) and 3 on its right (address 2):
  \<open>tree_min\<close> returns \<open>nullptr\<close>, so \<open>tree_next\<close> of the root returns \<open>nullptr\<close> and
  not the leftmost node of the right subtree (address 2); \<open>tree_next\<close> of the left child
  is the root; \<open>tree_next\<close> of the last node dereferences \<open>nullptr\<close>; and \<open>begin()\<close> is
  \<open>end()\<close>, so a traversal from \<open>begin()\<close> to \<open>end()\<close> visits no element.
\<close>

theorem tree_next_skips_right_subtree:
  "tmi_tree 0 tmi_three (Some 0) \<langle>\<langle>\<langle>\<rangle>, 1, \<langle>\<rangle>\<rangle>, 0, \<langle>\<langle>\<rangle>, 2, \<langle>\<rangle>\<rangle>\<rangle>
   \<and> tree_min 0 tmi_three (Some 0) = Some (Inr None)
   \<and> tree_next 0 tmi_three (Some 0) = Some (Inr None)
   \<and> tree_next 0 tmi_three (Some 1) = Some (Inr (Some 0))
   \<and> tree_next 0 tmi_three (Some 2) = Some (Inl Null_deref)
   \<and> begin_tmi (int_index True (Some 0)) tmi_three = Some (Inr end_tmi)"
  by (simp add: example_defs node_defs tree_min_def tree_min_loop.simps tree_next_def
        tree_next_loop.simps tree_is_left_child_def begin_tmi_def end_tmi_def make_iterator_def)

text \<open>
  C8 (the check misses a violated order). The root of the tree 1, 2, 3 is edited from 2 to
  100; its successor, 3, now compares less than it. \<open>erase_if_modified\<close> returns
  \<open>false\<close> and leaves everything as it is: predecessor and successor are taken from
  \<open>tree_max\<close> and \<open>tree_min\<close>, which return \<open>nullptr\<close>. On a tree of one node the call
  dereferences \<open>nullptr\<close>. Where it does return \<open>true\<close> (a right child of the root's left
  child, edited from 3 to 9), \<open>m_root\<close> becomes \<open>nullptr\<close>, and the key of the former root
  is not found any more.
\<close>

theorem erase_if_modified_misses_order_violation:
  "tmi_tree 0 tmi_three_modified (Some 0) \<langle>\<langle>\<langle>\<rangle>, 1, \<langle>\<rangle>\<rangle>, 0, \<langle>\<langle>\<rangle>, 2, \<langle>\<rangle>\<rangle>\<rangle>
   \<and> m_comparator (int_index False (Some 0))
        (key_of (int_index False (Some 0)) tmi_three_modified 2)
        (key_of (int_index False (Some 0)) tmi_three_modified 0)
   \<and> erase_if_modified (int_index False (Some 0)) tmi_three_modified (Some 0)
       = Some (Inr (False, int_index False (Some 0), tmi_three_modified))
   \<and> erase_if_modified (int_index False (Some 0)) tmi_fresh (Some 0) = Some (Inl Null_deref)
   \<and> (\<exists>c1 h1. erase_if_modified (int_index False (Some 0)) tmi_zigzag_modified (Some 2)
                 = Some (Inr (True, c1, h1))
         \<and> m_root c1 = None \<and> find_tmi c1 h1 5 = Some end_tmi)"
  by (simp add: example_defs node_defs key_of_def erase_if_modified_def tree_min_def
        tree_min_loop.simps tree_max_def tree_max_loop.simps tree_next_def tree_next_loop.simps
        tree_prev_def tree_prev_loop.simps tree_is_left_child_def tree_remove_def
        find_tmi_def find_loop.simps end_tmi_def make_iterator_def)

subsection \<open>Duplicate keys\<close>

lemma preinsert_loop_on_tree:
  "tmi_tree (index_I c) h cur t \<Longrightarrow>
   \<exists>ret par il. preinsert_loop c h key parent cur il0 = Some (ret, par, il)
     \<and> (ret = None \<or> sorted_unique c
          \<and> (\<exists>a\<in>set_tree t. ret = Some (Some a) \<and> equivalent c key (key_of c h a)))"
proof (induction t arbitrary: parent cur il0)
  case Leaf
  then show ?case by (subst preinsert_loop.simps) simp
next
  case (Node l a r)
  let ?k = "key_of c h a"
  from Node.prems have cur: "cur = Some a"
    and L: "tmi_tree (index_I c) h (node_left (index_I c) h a) l"
    and R: "tmi_tree (index_I c) h (node_right (index_I c) h a) r"
    by auto
  note IL = Node.IH(1)[OF L, of "Some a" True]
  note IR = Node.IH(2)[OF R, of "Some a" False]
  consider (lt) "m_comparator c key ?k"
    | (gt) "\<not> m_comparator c key ?k" "m_comparator c ?k key \<or> \<not> sorted_unique c"
    | (eq) "\<not> m_comparator c key ?k" "\<not> m_comparator c ?k key" "sorted_unique c" by blast
  then show ?case
  proof cases
    case lt
    with IL cur show ?thesis
      by (subst preinsert_loop.simps) (auto simp: key_of_def)
  next
    case gt
    with IR cur show ?thesis
      by (subst preinsert_loop.simps) (auto simp: key_of_def)
  next
    case eq
    with cur show ?thesis
      by (subst preinsert_loop.simps) (auto simp: key_of_def equivalent_def)
  qed
qed

lemma preinsert_loop_conflict:
  assumes swo: "strict_weak_order (m_comparator c)" and uniq: "sorted_unique c"
  shows "tmi_tree (index_I c) h cur t \<Longrightarrow> ordered c h t \<Longrightarrow>
   \<exists>a\<in>set_tree t. equivalent c key (key_of c h a) \<Longrightarrow>
   \<exists>ret par il. preinsert_loop c h key parent cur il0 = Some (Some ret, par, il)"
proof (induction t arbitrary: parent cur il0)
  case Leaf
  then show ?case by simp
next
  case (Node l a r)
  let ?k = "key_of c h a"
  from swo have nt: "\<And>x y z. m_comparator c x y \<Longrightarrow> m_comparator c x z \<or> m_comparator c z y"
    unfolding strict_weak_order_def by blast
  from Node.prems(1) have cur: "cur = Some a"
    and L: "tmi_tree (index_I c) h (node_left (index_I c) h a) l"
    and R: "tmi_tree (index_I c) h (node_right (index_I c) h a) r"
    by auto
  from Node.prems(2) have ol: "ordered c h l" and or: "ordered c h r"
    and bl: "\<forall>b\<in>set_tree l. \<not> m_comparator c ?k (key_of c h b)"
    and br: "\<forall>b\<in>set_tree r. \<not> m_comparator c (key_of c h b) ?k" by auto
  consider (lt) "m_comparator c key ?k"
    | (gt) "\<not> m_comparator c key ?k" "m_comparator c ?k key"
    | (eq) "\<not> m_comparator c key ?k" "\<not> m_comparator c ?k key" by blast
  then show ?case
  proof cases
    case lt
    have "\<forall>b\<in>set_tree r. \<not> equivalent c key (key_of c h b)"
      using nt[OF lt] br by (auto simp: equivalent_def)
    with Node.prems(3) lt have "\<exists>b\<in>set_tree l. equivalent c key (key_of c h b)"
      by (auto simp: equivalent_def)
    from Node.IH(1)[OF L ol this, of "Some a" True] lt cur uniq show ?thesis
      by (subst preinsert_loop.simps) (auto simp: key_of_def)
  next
    case gt
    have "\<forall>b\<in>set_tree l. \<not> equivalent c key (key_of c h b)"
      using nt[OF gt(2)] bl by (auto simp: equivalent_def)
    with Node.prems(3) gt have "\<exists>b\<in>set_tree r. equivalent c key (key_of c h b)"
      by (auto simp: equivalent_def)
    from Node.IH(2)[OF R or this, of "Some a" False] gt cur uniq show ?thesis
      by (subst preinsert_loop.simps) (auto simp: key_of_def)
  next
    case eq
    with cur uniq show ?thesis
      by (subst preinsert_loop.simps) (auto simp: key_of_def)
  qed
qed

text \<open>What \<open>preinsert_node\<close> gives on a well-formed tree.\<close>

lemma preinsert_node_on_tree:
  assumes "tmi_tree (index_I c) h (m_root c) t"
  shows "\<exists>conflict hints1. preinsert_node c h (Some n) hints = Some (Inr (conflict, hints1))
     \<and> (conflict = None \<or> hints1 = hints \<and> sorted_unique c
          \<and> (\<exists>a\<in>set_tree t. conflict = Some a
                \<and> equivalent c (key_of c h n) (key_of c h a)))"
proof -
  from preinsert_loop_on_tree[OF assms, of "key_of c h n" None False]
  obtain ret par il where
    1: "preinsert_loop c h (key_of c h n) None (m_root c) False = Some (ret, par, il)"
    and 2: "ret = None \<or> sorted_unique c
          \<and> (\<exists>a\<in>set_tree t. ret = Some (Some a) \<and> equivalent c (key_of c h n) (key_of c h a))"
    by blast
  from 2 show ?thesis
  proof
    assume "ret = None"
    with 1 show ?thesis by (simp add: preinsert_node_def key_of_def)
  next
    assume "sorted_unique c
          \<and> (\<exists>a\<in>set_tree t. ret = Some (Some a) \<and> equivalent c (key_of c h n) (key_of c h a))"
    with 1 show ?thesis by (auto simp: preinsert_node_def key_of_def)
  qed
qed

lemma preinsert_node_conflict:
  assumes "strict_weak_order (m_comparator c)" "sorted_unique c"
    "tmi_tree (index_I c) h (m_root c) t" "ordered c h t"
    "\<exists>a\<in>set_tree t. equivalent c (key_of c h n) (key_of c h a)"
  shows "\<exists>a\<in>set_tree t. preinsert_node c h (Some n) hints = Some (Inr (Some a, hints))
            \<and> equivalent c (key_of c h n) (key_of c h a)"
proof -
  from preinsert_loop_conflict[OF assms, of None False]
  obtain ret par il where
    1: "preinsert_loop c h (key_of c h n) None (m_root c) False = Some (Some ret, par, il)"
    by blast
  from preinsert_loop_on_tree[OF assms(3), of "key_of c h n" None False] 1
  obtain a where "a \<in> set_tree t" "ret = Some a" "equivalent c (key_of c h n) (key_of c h a)"
    by auto
  with 1 show ?thesis by (auto simp: preinsert_node_def key_of_def)
qed

lemma prevalidate_conflict:
  assumes wf: "\<forall>c\<in>set cs. \<exists>t. tmi_tree (index_I c) h (m_root c) t \<and> n \<notin> set_tree t"
    and c: "c \<in> set cs" "strict_weak_order (m_comparator c)" "sorted_unique c"
      "tmi_tree (index_I c) h (m_root c) t" "ordered c h t"
      "\<exists>a\<in>set_tree t. equivalent c (key_of c h n) (key_of c h a)"
  shows "\<exists>a hs. prevalidate cs h (Some n) = Some (Inr (Some a, hs)) \<and> a \<noteq> n
     \<and> (\<exists>d\<in>set cs. sorted_unique d
            \<and> (\<exists>u. tmi_tree (index_I d) h (m_root d) u \<and> a \<in> set_tree u)
            \<and> equivalent d (key_of d h n) (key_of d h a))"
  using wf c(1)
proof (induction cs)
  case Nil
  then show ?case by simp
next
  case (Cons d ds)
  from Cons.prems(1) obtain u where u: "tmi_tree (index_I d) h (m_root d) u" "n \<notin> set_tree u"
    by auto
  from preinsert_node_on_tree[OF u(1), of n "\<lparr>m_parent = None, m_inserted_left = False\<rparr>"]
  obtain conflict hints1 where
    1: "preinsert_node d h (Some n) \<lparr>m_parent = None, m_inserted_left = False\<rparr>
          = Some (Inr (conflict, hints1))"
    and 2: "conflict = None \<or> hints1 = \<lparr>m_parent = None, m_inserted_left = False\<rparr> \<and> sorted_unique d
          \<and> (\<exists>a\<in>set_tree u. conflict = Some a \<and> equivalent d (key_of d h n) (key_of d h a))"
    by blast
  show ?case
  proof (cases conflict)
    case (Some a)
    with 2 have "sorted_unique d" "a \<in> set_tree u" "equivalent d (key_of d h n) (key_of d h a)"
      by auto
    with 1 Some u show ?thesis by auto
  next
    case None
    have "c \<noteq> d"
    proof
      assume "c = d"
      with preinsert_node_conflict[OF c(2-6), of "\<lparr>m_parent = None, m_inserted_left = False\<rparr>"]
        1 None show False by auto
    qed
    with Cons.prems(2) have "c \<in> set ds" by simp
    with Cons.IH Cons.prems(1) obtain a hs where
      "prevalidate ds h (Some n) = Some (Inr (Some a, hs))" "a \<noteq> n"
      "\<exists>d\<in>set ds. sorted_unique d
          \<and> (\<exists>u. tmi_tree (index_I d) h (m_root d) u \<and> a \<in> set_tree u)
          \<and> equivalent d (key_of d h n) (key_of d h a)"
      by auto
    with 1 None show ?thesis by auto
  qed
qed

lemma tmi_tree_stage [simp]: "tmi_tree I (stage h n v) p t = tmi_tree I h p t"
  by (induction t arbitrary: p) (auto simp: stage_def node_left_def node_right_def)

lemma key_of_stage: "key_of c (stage h n v) a = (if a = n then m_key_from_value c v else key_of c h a)"
  by (simp add: key_of_def stage_def node_value_def)

lemma ordered_stage: "n \<notin> set_tree t \<Longrightarrow> ordered c (stage h n v) t = ordered c h t"
  by (induction t) (auto simp: key_of_stage)

text \<open>
  C5. Inserting a value whose key is equivalent to a key already in a sorted-unique index
  fails. \<open>preinsert_node\<close> of that index, which only reads, returns the conflicting node and
  leaves the hints as they were; and the coordinator's insert returns failure with a
  conflicting existing element (of the first sorted-unique index, in the order of the
  indices, that holds an equivalent key) together with the container it was given: no
  index's root, no link and no value has changed, and the size is the same. The trees of
  all indices are well-formed and do not hold the pool's next unused cell; the tree of
  the index satisfies the ordering invariant, under a strict weak order.
\<close>

theorem duplicate_key_insert_fails:
  assumes wf: "\<forall>d\<in>set (indices C).
                 \<exists>u. tmi_tree (index_I d) (nodes C) (m_root d) u \<and> next_node C \<notin> set_tree u"
    and c: "c \<in> set (indices C)" "sorted_unique c" "strict_weak_order (m_comparator c)"
    and t: "tmi_tree (index_I c) (nodes C) (m_root c) t" "next_node C \<notin> set_tree t"
      "ordered c (nodes C) t"
    and dup: "\<exists>a\<in>set_tree t. equivalent c (m_key_from_value c v) (key_of c (nodes C) a)"
  shows "(\<exists>a\<in>set_tree t.
            preinsert_node c (stage (nodes C) (next_node C) v) (Some (next_node C)) hints
              = Some (Inr (Some a, hints))
            \<and> equivalent c (m_key_from_value c v) (key_of c (nodes C) a))
     \<and> (\<exists>a. do_insert C v = Some (Inr (C, Some a, False))
           \<and> size_tmi C = m_size C
           \<and> (\<exists>d\<in>set (indices C). sorted_unique d
                 \<and> (\<exists>u. tmi_tree (index_I d) (nodes C) (m_root d) u \<and> a \<in> set_tree u)
                 \<and> equivalent d (m_key_from_value d v) (key_of d (nodes C) a)))"
proof -
  let ?n = "next_node C"
  let ?h = "stage (nodes C) ?n v"
  have wf': "\<forall>d\<in>set (indices C). \<exists>u. tmi_tree (index_I d) ?h (m_root d) u \<and> ?n \<notin> set_tree u"
    using wf by simp
  have t': "tmi_tree (index_I c) ?h (m_root c) t" "ordered c ?h t"
    using t by (simp_all add: ordered_stage)
  have dup': "\<exists>a\<in>set_tree t. equivalent c (key_of c ?h ?n) (key_of c ?h a)"
  proof -
    from dup obtain a where a: "a \<in> set_tree t"
      "equivalent c (m_key_from_value c v) (key_of c (nodes C) a)" by blast
    with t(2) have "a \<noteq> ?n" by auto
    with a show ?thesis by (auto simp: key_of_stage intro!: bexI[of _ a])
  qed
  have first: "\<exists>a\<in>set_tree t.
            preinsert_node c ?h (Some ?n) hints = Some (Inr (Some a, hints))
            \<and> equivalent c (m_key_from_value c v) (key_of c (nodes C) a)"
  proof -
    from preinsert_node_conflict[OF c(3) c(2) t' dup', of hints]
    obtain a where a: "a \<in> set_tree t"
      "preinsert_node c ?h (Some ?n) hints = Some (Inr (Some a, hints))"
      "equivalent c (key_of c ?h ?n) (key_of c ?h a)" by blast
    with t(2) have "a \<noteq> ?n" by auto
    with a show ?thesis by (auto simp: key_of_stage intro!: bexI[of _ a])
  qed
  from prevalidate_conflict[OF wf' c(1) c(3) c(2) t' dup']
  obtain a hs where 1: "prevalidate (indices C) ?h (Some ?n) = Some (Inr (Some a, hs))"
    and 2: "a \<noteq> ?n"
    and 3: "\<exists>d\<in>set (indices C). sorted_unique d
              \<and> (\<exists>u. tmi_tree (index_I d) ?h (m_root d) u \<and> a \<in> set_tree u)
              \<and> equivalent d (key_of d ?h ?n) (key_of d ?h a)"
    by auto
  from 1 have "do_insert C v = Some (Inr (C, Some a, False))"
    by (simp add: do_insert_def Let_def)
  with 2 3 have "\<exists>a. do_insert C v = Some (Inr (C, Some a, False))
           \<and> size_tmi C = m_size C
           \<and> (\<exists>d\<in>set (indices C). sorted_unique d
                 \<and> (\<exists>u. tmi_tree (index_I d) (nodes C) (m_root d) u \<and> a \<in> set_tree u)
                 \<and> equivalent d (m_key_from_value d v) (key_of d (nodes C) a))"
    by (auto simp: key_of_stage size_tmi_def)
  with first show ?thesis by blast
qed

theorem duplicate_key_insert_fails_witness:
  "int_index True (Some 0) \<in> set (indices tmi_two_indices)
   \<and> sorted_unique (int_index True (Some 0))
   \<and> tmi_tree 0 (nodes tmi_two_indices) (Some 0) \<langle>\<langle>\<langle>\<rangle>, 1, \<langle>\<rangle>\<rangle>, 0, \<langle>\<langle>\<rangle>, 2, \<langle>\<rangle>\<rangle>\<rangle>
   \<and> ordered (int_index True (Some 0)) (nodes tmi_two_indices) \<langle>\<langle>\<langle>\<rangle>, 1, \<langle>\<rangle>\<rangle>, 0, \<langle>\<langle>\<rangle>, 2, \<langle>\<rangle>\<rangle>\<rangle>
   \<and> equivalent (int_index True (Some 0)) 2 (key_of (int_index True (Some 0)) (nodes tmi_two_indices) 0)
   \<and> preinsert_node (int_index True (Some 0)) (stage (nodes tmi_two_indices) 3 2) (Some 3) no_hints
        = Some (Inr (Some 0, no_hints))
   \<and> do_insert tmi_two_indices 2 = Some (Inr (tmi_two_indices, Some 0, False))"
proof -
  let ?t = "\<langle>\<langle>\<langle>\<rangle>, 1, \<langle>\<rangle>\<rangle>, 0, \<langle>\<langle>\<rangle>, 2, \<langle>\<rangle>\<rangle>\<rangle> :: nat tree"
  let ?c = "int_index True (Some 0)"
  have wf: "\<forall>d\<in>set (indices tmi_two_indices).
              \<exists>u. tmi_tree (index_I d) (nodes tmi_two_indices) (m_root d) u
                \<and> next_node tmi_two_indices \<notin> set_tree u"
    by (auto simp: tmi_two_indices_def example_defs node_defs intro!: exI[of _ ?t])
  have c: "?c \<in> set (indices tmi_two_indices)" "sorted_unique ?c"
    "strict_weak_order (m_comparator ?c)"
    by (simp_all add: tmi_two_indices_def int_index_def strict_weak_order_int)
  have t: "tmi_tree (index_I ?c) (nodes tmi_two_indices) (m_root ?c) ?t"
    "next_node tmi_two_indices \<notin> set_tree ?t" "ordered ?c (nodes tmi_two_indices) ?t"
    by (simp_all add: tmi_two_indices_def example_defs node_defs key_of_def)
  have dup: "\<exists>a\<in>set_tree ?t. equivalent ?c (m_key_from_value ?c 2) (key_of ?c (nodes tmi_two_indices) a)"
    by (simp add: tmi_two_indices_def example_defs node_defs key_of_def equivalent_def)
  from duplicate_key_insert_fails[OF wf c t dup, of no_hints] c t
  show ?thesis
    by (simp add: tmi_two_indices_def example_defs node_defs key_of_def equivalent_def stage_def
          preinsert_node_def preinsert_loop.simps do_insert_def)
qed

end
